theory Spec2Isabelle
  imports Complex_Main "HOL-Library.AList"
begin

section \<open>Conventions of the embedding\<close>

text \<open>
  The two metrics of \<^verbatim>\<open>lighthouse-core/third_party/traceviewer-js/metrics/system_health\<close>
  are embedded function by function.

  \<^item> A JavaScript number is a \<^typ>\<open>real\<close>, the real that a finite double denotes. The
    two animation sub-scores are computed as the source computes them, in IEEE 754
    doubles: each operation is followed by \<open>roundToDouble\<close>. Elsewhere (the counts of the
    scoring tables, the weighted means, the sums of memory sizes) the arithmetic is exact
    and the rounding of doubles is outside the model. \<^verbatim>\<open>NaN\<close> and the infinities are
    outside the model throughout.
  \<^item> A \<^verbatim>\<open>throw new Error(...)\<close> is a value \<open>Inl e\<close> of the type \<open>error + 'a\<close>; the
    constructor of \<open>e\<close> carries the variable parts of the message.
  \<^item> A plain object used as a dictionary, and a \<^verbatim>\<open>Map\<close>, is an association list in
    insertion order (the order \<^verbatim>\<open>for ... in\<close> and \<^verbatim>\<open>Map.forEach\<close> visit keys that are
    not array indices); keys inherited from \<^verbatim>\<open>Object.prototype\<close> are outside the model.
  \<^item> \<^verbatim>\<open>undefined\<close> is \<open>None\<close>.
\<close>

type_synonym 'v dict = "(string \<times> 'v) list"

text \<open>The units of \<^verbatim>\<open>tr.v.Unit.byName\<close>: the three that the metrics name, and any other
  by its name.\<close>

datatype Unit =
    normalizedPercentage_biggerIsBetter
  | sizeInBytes_smallerIsBetter
  | unitlessNumber_smallerIsBetter
  | OtherUnit string

record ScalarNumeric =
  scalarUnit :: Unit
  scalarValue :: real

text \<open>The errors of the two files, one constructor for each \<^verbatim>\<open>throw\<close>, with the parts
  of the message that vary; \<open>TypeError\<close> is the error of reading a property of
  \<^verbatim>\<open>undefined\<close>.\<close>

datatype error =
    AnimationMissingFrameEvents string
  | MissingThroughput string
  | MissingSmoothness string
  | ResponsivenessNotDefinedForIdle
  | UnrecognizedStage string
  | UnableToComputeResponsiveness string
  | MemoryDumpIdClash nat nat
  | MultipleUnitsOfProcesses string string Unit Unit
  | MultipleUnitsOfDifferentProcesses string Unit Unit
  | TypeError

section \<open>Library functions the metrics call\<close>

text \<open>
  The metrics call into \<^verbatim>\<open>base/math.js\<close>, \<^verbatim>\<open>base/statistics.js\<close>,
  \<^verbatim>\<open>base/iteration_helpers.js\<close>, \<^verbatim>\<open>value/numeric.js\<close> and \<^verbatim>\<open>metrics/system_health/utils.js\<close>.
  None of these files is among the sources at hand, so each function used from them is
  modelled from the specification.
\<close>

subsection \<open>Arithmetic\<close>

text \<open>Modelled from the spec: \<^verbatim>\<open>tr.b.normalize\<close> (base/math.js is missing); section 4.2,
  "normalize this against the range": the position of a value in a range, 0 at the lower
  and 1 at the upper bound.\<close>

definition normalize_range :: "real \<Rightarrow> real \<Rightarrow> real \<Rightarrow> real" where
  "normalize_range v lo hi = (if lo = hi then 0 else (v - lo) / (hi - lo))"

text \<open>Modelled from the spec: \<^verbatim>\<open>tr.b.clamp\<close> (base/math.js is missing); section 4.2,
  "clamp to [0,1]".\<close>

definition clamp :: "real \<Rightarrow> real \<Rightarrow> real \<Rightarrow> real" where
  "clamp x lo hi = min (max x lo) hi"

text \<open>Modelled from the spec: \<^verbatim>\<open>tr.b.lerp\<close> (base/math.js is missing); section 4.1,
  "linearly interpolated".\<close>

definition lerp :: "real \<Rightarrow> real \<Rightarrow> real \<Rightarrow> real" where
  "lerp t lo hi = lo + (hi - lo) * t"

subsection \<open>Arithmetic in doubles\<close>

text \<open>The rounding of every arithmetic operation of JavaScript: \<open>roundToDouble x\<close> is the
  double nearest to \<open>x\<close>, a tie going to the even significand. A double has 53
  significant bits, and its unit in the last place is no less than \<open>2 ^ - 1074\<close> (the
  subnormal numbers). The overflow to an infinity, beyond \<^verbatim>\<open>Number.MAX_VALUE\<close>, is
  outside the model.

  \<open>bitLength n\<close> is the number of binary digits of a positive integer, and
  \<open>binaryExponent x\<close> is the exponent \<open>e\<close> with \<open>2 ^ e \<le> \<bar>x\<bar> < 2 ^ (e + 1)\<close> of a number
  other than 0.\<close>

function bitLength :: "int \<Rightarrow> nat" where
  "bitLength n = (if n \<le> 0 then 0 else Suc (bitLength (n div 2)))"
  by pat_completeness auto
termination by (relation "measure nat") auto

declare bitLength.simps [simp del]

definition binaryExponent :: "real \<Rightarrow> int" where
  "binaryExponent x =
     (if 1 \<le> \<bar>x\<bar> then int (bitLength \<lfloor>\<bar>x\<bar>\<rfloor>) - 1
      else - int (bitLength (\<lceil>1 / \<bar>x\<bar>\<rceil> - 1)))"

definition roundTiesToEven :: "real \<Rightarrow> int" where
  "roundTiesToEven x =
     (let f = \<lfloor>x\<rfloor>; r = x - of_int f
      in if r < 1 / 2 then f else if 1 / 2 < r then f + 1 else if even f then f else f + 1)"

definition roundToDouble :: "real \<Rightarrow> real" where
  "roundToDouble x =
     (if x = 0 then 0
      else
        let e = max (binaryExponent x) (- 1022);
            ulp = 2 powi (e - 52)
        in of_int (roundTiesToEven (x / ulp)) * ulp)"

text \<open>Modelled from the spec: \<^verbatim>\<open>tr.b.normalize\<close> (base/math.js is missing), as
  \<open>normalize_range\<close> above, with each of its three operations rounded to a double.\<close>

definition normalizeDouble :: "real \<Rightarrow> real \<Rightarrow> real \<Rightarrow> real" where
  "normalizeDouble v lo hi =
     (if lo = hi then 0
      else roundToDouble (roundToDouble (v - lo) / roundToDouble (hi - lo)))"

subsection \<open>Statistics\<close>

text \<open>Modelled from the spec: \<^verbatim>\<open>tr.b.Statistics.weightedMean\<close> (base/statistics.js is
  missing); section 4.3, "weighted mean with a perceptual-blend weighting function" and
  "If there are zero scoreable expectations, no overall value is emitted": the sum of
  weight times value over the sum of the weights, and \<^verbatim>\<open>undefined\<close> when the weights sum
  to zero, as they do for the empty list. The weight callback sees the index and the
  value of an element.\<close>

definition weightedMean :: "real list \<Rightarrow> (nat \<Rightarrow> real \<Rightarrow> real) \<Rightarrow> real option" where
  "weightedMean ary weightCallback =
     (let weights = map (\<lambda>(i, v). weightCallback i v) (enumerate 0 ary);
          numerator = sum_list (map (\<lambda>(w, v). w * v) (zip weights ary));
          denominator = sum_list weights
      in if denominator = 0 then None else Some (numerator / denominator))"

text \<open>The two functions of the libraries that the specification names but does not
  define are parameters of the model: \<^verbatim>\<open>tr.b.Statistics.timestampsDiscrepancy\<close>
  (timestamps and the \<^verbatim>\<open>absolute\<close> flag to the discrepancy) and
  \<^verbatim>\<open>tr.metrics.sh.perceptualBlend\<close> (index and score to the weight of the score).\<close>

record Lib =
  timestampsDiscrepancy :: "real list \<Rightarrow> bool \<Rightarrow> real"
  perceptualBlend :: "nat \<Rightarrow> real \<Rightarrow> real"

subsection \<open>Histograms (\<^verbatim>\<open>tr.v.Numeric\<close>)\<close>

text \<open>The dictionaries handed to \<^verbatim>\<open>tr.v.Numeric.fromDict\<close>: a bin is
  \<^verbatim>\<open>{min, max, count}\<close>.\<close>

record Bin =
  binMin :: real
  binMax :: real
  binCount :: real

record Numeric =
  numericMin :: real
  numericMax :: real
  centralBinWidth :: real
  underflowBin :: Bin
  centralBins :: "Bin list"
  overflowBin :: Bin

definition MAX_VALUE :: real where
  "MAX_VALUE = (2 ^ 53 - 1) * 2 ^ 971"

definition binCenter :: "Bin \<Rightarrow> real" where
  "binCenter b = (binMin b + binMax b) / 2"

text \<open>Modelled from the spec: \<^verbatim>\<open>Numeric.maxCount\<close> (value/numeric.js is missing);
  section 3, "\<^verbatim>\<open>maxCount\<close> = the count value used for normalization (fixed per table)":
  the largest count of a bin of the table.\<close>

definition maxCount :: "Numeric \<Rightarrow> real" where
  "maxCount h =
     fold max (map binCount (centralBins h @ [overflowBin h])) (binCount (underflowBin h))"

text \<open>Modelled from the spec: \<^verbatim>\<open>Numeric.getInterpolatedCountAt\<close> (value/numeric.js is
  missing); section 4.1: the count is "linearly interpolated within whichever bin
  \<^verbatim>\<open>duration\<close> falls into (edge duration values clamp to the nearest bin boundary; values
  beyond the outermost bins saturate at the underflow/overflow count)", and section 8:
  the count at \<^verbatim>\<open>table.min\<close> is the underflow count.

  A value below \<^verbatim>\<open>min\<close> falls into the underflow bin, a value from \<^verbatim>\<open>max\<close> on into the
  overflow bin, and both get the count of their bin. Inside a central bin the count of
  the bin is attained at its centre; the value is interpolated between the centre of its
  bin and the centre of the neighbour on the side of the value. The neighbour of the
  first central bin is the underflow bin, anchored at its upper boundary, and the
  neighbour of the last one is the overflow bin, anchored at its lower boundary.

  \<open>interpolateCentral (c, n) bins over v\<close> walks the central bins to the one \<open>v\<close> falls
  into; \<open>(c, n)\<close> are the anchor and the count of the bin before the head of \<open>bins\<close>.

  The specification does not say where inside a central bin its count is attained, and
  the worked example of its section 8 (the LOAD table at 6900 ms) adds the counts up
  instead. The anchoring at the centres is one reading; what is proved of the duration
  score below is that it lies between the counts of the overflow and of the underflow
  bin over \<open>maxCount\<close> and takes these two values beyond the ends of the table.\<close>

fun interpolateCentral :: "real \<times> real \<Rightarrow> Bin list \<Rightarrow> Bin \<Rightarrow> real \<Rightarrow> real" where
  "interpolateCentral (c, n) [] over v = binCount over"
| "interpolateCentral (c, n) (b # bins) over v =
     (if v < binMax b then
        (if v < binCenter b then
           lerp (normalize_range v c (binCenter b)) n (binCount b)
         else
           (case bins of
              [] \<Rightarrow> lerp (normalize_range v (binCenter b) (binMin over))
                      (binCount b) (binCount over)
            | b' # _ \<Rightarrow> lerp (normalize_range v (binCenter b) (binCenter b'))
                      (binCount b) (binCount b')))
      else interpolateCentral (binCenter b, binCount b) bins over v)"

definition getInterpolatedCountAt :: "Numeric \<Rightarrow> real \<Rightarrow> real" where
  "getInterpolatedCountAt h v =
     (if v < numericMin h then binCount (underflowBin h)
      else if numericMax h \<le> v then binCount (overflowBin h)
      else interpolateCentral (binMax (underflowBin h), binCount (underflowBin h))
             (centralBins h) (overflowBin h) v)"

section \<open>\<^verbatim>\<open>responsiveness_metric.js\<close>\<close>

subsection \<open>The scoring tables and the duration score\<close>

definition RESPONSE_HISTOGRAM :: Numeric where
  "RESPONSE_HISTOGRAM = \<lparr>
     numericMin = 150, numericMax = 5000, centralBinWidth = 485,
     underflowBin = \<lparr>binMin = - MAX_VALUE, binMax = 150, binCount = 1000\<rparr>,
     centralBins = [
       \<lparr>binMin = 150, binMax = 635, binCount = 708\<rparr>,
       \<lparr>binMin = 635, binMax = 1120, binCount = 223\<rparr>,
       \<lparr>binMin = 1120, binMax = 1605, binCount = 50\<rparr>,
       \<lparr>binMin = 1605, binMax = 2090, binCount = 33\<rparr>,
       \<lparr>binMin = 2090, binMax = 2575, binCount = 23\<rparr>,
       \<lparr>binMin = 2575, binMax = 3060, binCount = 17\<rparr>,
       \<lparr>binMin = 3060, binMax = 3545, binCount = 12\<rparr>,
       \<lparr>binMin = 3545, binMax = 4030, binCount = 8\<rparr>,
       \<lparr>binMin = 4030, binMax = 4515, binCount = 4\<rparr>,
       \<lparr>binMin = 4515, binMax = 5000, binCount = 1\<rparr>],
     overflowBin = \<lparr>binMin = 5000, binMax = MAX_VALUE, binCount = 0\<rparr>\<rparr>"

definition FAST_RESPONSE_HISTOGRAM :: Numeric where
  "FAST_RESPONSE_HISTOGRAM = \<lparr>
     numericMin = 66, numericMax = 2200, centralBinWidth = 214,
     underflowBin = \<lparr>binMin = - MAX_VALUE, binMax = 66, binCount = 1000\<rparr>,
     centralBins = [
       \<lparr>binMin = 66, binMax = 280, binCount = 708\<rparr>,
       \<lparr>binMin = 280, binMax = 493, binCount = 223\<rparr>,
       \<lparr>binMin = 493, binMax = 706, binCount = 50\<rparr>,
       \<lparr>binMin = 706, binMax = 920, binCount = 33\<rparr>,
       \<lparr>binMin = 920, binMax = 1133, binCount = 23\<rparr>,
       \<lparr>binMin = 1133, binMax = 1346, binCount = 17\<rparr>,
       \<lparr>binMin = 1346, binMax = 1560, binCount = 12\<rparr>,
       \<lparr>binMin = 1560, binMax = 1773, binCount = 8\<rparr>,
       \<lparr>binMin = 1773, binMax = 1987, binCount = 4\<rparr>,
       \<lparr>binMin = 1987, binMax = 2200, binCount = 1\<rparr>],
     overflowBin = \<lparr>binMin = 2200, binMax = MAX_VALUE, binCount = 0\<rparr>\<rparr>"

definition LOAD_HISTOGRAM :: Numeric where
  "LOAD_HISTOGRAM = \<lparr>
     numericMin = 1000, numericMax = 60000, centralBinWidth = 5900,
     underflowBin = \<lparr>binMin = - MAX_VALUE, binMax = 1000, binCount = 1000\<rparr>,
     centralBins = [
       \<lparr>binMin = 1000, binMax = 6900, binCount = 901\<rparr>,
       \<lparr>binMin = 6900, binMax = 12800, binCount = 574\<rparr>,
       \<lparr>binMin = 12800, binMax = 18700, binCount = 298\<rparr>,
       \<lparr>binMin = 18700, binMax = 24600, binCount = 65\<rparr>,
       \<lparr>binMin = 24600, binMax = 30500, binCount = 35\<rparr>,
       \<lparr>binMin = 30500, binMax = 36400, binCount = 23\<rparr>,
       \<lparr>binMin = 36400, binMax = 42300, binCount = 16\<rparr>,
       \<lparr>binMin = 42300, binMax = 48200, binCount = 10\<rparr>,
       \<lparr>binMin = 48200, binMax = 54100, binCount = 5\<rparr>,
       \<lparr>binMin = 54100, binMax = 60000, binCount = 2\<rparr>],
     overflowBin = \<lparr>binMin = 60000, binMax = MAX_VALUE, binCount = 0\<rparr>\<rparr>"

definition UNIT :: Unit where
  "UNIT = normalizedPercentage_biggerIsBetter"

definition computeDurationResponsiveness :: "Numeric \<Rightarrow> real \<Rightarrow> real" where
  "computeDurationResponsiveness histogram duration =
     getInterpolatedCountAt histogram duration / maxCount histogram"

subsection \<open>User expectations and values\<close>

text \<open>The constructor an \<^verbatim>\<open>instanceof\<close> chain finds; \<open>OtherExpectation\<close> is any user
  expectation that is none of the four.\<close>

datatype ExpectationKind =
    IdleExpectation
  | LoadExpectation
  | ResponseExpectation
  | AnimationExpectation
  | OtherExpectation

record FrameEvent =
  frameStart :: real

record UserExpectation =
  stableId :: string
  stageTitle :: string
  initiatorTitle :: string
  parentModelCanonicalUrl :: string
  expectationKind :: ExpectationKind
  expectationStart :: real
  duration :: real
  frameEvents :: "FrameEvent list option"
  isAnimationBegin :: bool

record GroupingKeys =
  userExpectationStableId :: string
  userExpectationStageTitle :: string
  userExpectationInitiatorTitle :: string

text \<open>\<^verbatim>\<open>new tr.v.NumericValue(canonicalUrl, name, numeric, options, groupingKeys,
  diagnostics)\<close>; the only option set is the description. The grouping keys of the overall
  value are the empty object, \<open>None\<close> here.\<close>

datatype NumericValue =
  NumericValue (valueCanonicalUrl: string) (value_name: string) (valueNumeric: ScalarNumeric)
    (valueDescription: "string option") (valueGroupingKeys: "GroupingKeys option")
    (valueDiagnostics: "NumericValue list option")

text \<open>Modelled from the spec: \<^verbatim>\<open>tr.metrics.ValueList.addValue\<close> (metrics/value_list.js is
  missing); section 6, the sink that stores the emitted records: the value is appended.\<close>

definition addValue :: "NumericValue list \<Rightarrow> NumericValue \<Rightarrow> NumericValue list" where
  "addValue valueList v = valueList @ [v]"

definition groupingKeysForUserExpectation :: "UserExpectation \<Rightarrow> GroupingKeys" where
  "groupingKeysForUserExpectation ue = \<lparr>
     userExpectationStableId = stableId ue,
     userExpectationStageTitle = stageTitle ue,
     userExpectationInitiatorTitle = initiatorTitle ue\<rparr>"

subsection \<open>Animation throughput and smoothness\<close>

text \<open>The two sub-scores are computed in doubles: the two divisions, the reciprocals of
  the frame rates, the operations of \<^verbatim>\<open>tr.b.normalize\<close> and the subtraction from 1 are
  each rounded. \<^verbatim>\<open>tr.b.clamp\<close> takes a minimum and a maximum, which are exact. The
  number of frame events is below \<open>2 ^ 53\<close> and so is a double.\<close>

definition MAX_FPS :: real where
  "MAX_FPS = 60"

definition MIN_FPS :: real where
  "MIN_FPS = 10"

definition computeAnimationThroughput :: "UserExpectation \<Rightarrow> error + real" where
  "computeAnimationThroughput animationExpectation =
     (case frameEvents animationExpectation of
        None \<Rightarrow> Inl (AnimationMissingFrameEvents (stableId animationExpectation))
      | Some events \<Rightarrow>
          if length events = 0
          then Inl (AnimationMissingFrameEvents (stableId animationExpectation))
          else
            let durationSeconds = roundToDouble (duration animationExpectation / 1000);
                avgSpf = roundToDouble (durationSeconds / real (length events));
                throughput = roundToDouble
                  (1 - normalizeDouble avgSpf (roundToDouble (1 / MAX_FPS))
                         (roundToDouble (1 / MIN_FPS)))
            in Inr (clamp throughput 0 1))"

text \<open>The literals \<^verbatim>\<open>0.05\<close> and \<^verbatim>\<open>0.3\<close> of the source are the doubles nearest to these
  fractions.\<close>

definition MIN_DISCREPANCY :: real where
  "MIN_DISCREPANCY = roundToDouble (5 / 100)"

definition MAX_DISCREPANCY :: real where
  "MAX_DISCREPANCY = roundToDouble (3 / 10)"

definition computeAnimationSmoothness :: "Lib \<Rightarrow> UserExpectation \<Rightarrow> error + real" where
  "computeAnimationSmoothness L animationExpectation =
     (case frameEvents animationExpectation of
        None \<Rightarrow> Inl (AnimationMissingFrameEvents (stableId animationExpectation))
      | Some events \<Rightarrow>
          if length events = 0
          then Inl (AnimationMissingFrameEvents (stableId animationExpectation))
          else
            let frameTimestamps = map frameStart events;
                absolute = False;
                discrepancy = timestampsDiscrepancy L frameTimestamps absolute;
                smoothness = roundToDouble
                  (1 - normalizeDouble discrepancy MIN_DISCREPANCY MAX_DISCREPANCY)
            in Inr (clamp smoothness 0 1))"

text \<open>The diagnostic values are threaded through: the function returns the score with
  the list it has added to. The two \<^verbatim>\<open>=== undefined\<close> tests of the source cannot fire,
  a sub-score that is computed is a number; the weighted mean may be \<^verbatim>\<open>undefined\<close>.\<close>

definition computeAnimationResponsiveness ::
  "Lib \<Rightarrow> UserExpectation \<Rightarrow> NumericValue list \<Rightarrow> error + (real option \<times> NumericValue list)" where
  "computeAnimationResponsiveness L animationExpectation diagnosticValues =
     (case computeAnimationThroughput animationExpectation of
        Inl e \<Rightarrow> Inl e
      | Inr throughput \<Rightarrow>
          let diagnosticValues1 = addValue diagnosticValues
                (NumericValue (parentModelCanonicalUrl animationExpectation) ''throughput''
                   \<lparr>scalarUnit = UNIT, scalarValue = throughput\<rparr>
                   (Some ''Mean Opinion Score for Animation throughput'')
                   (Some (groupingKeysForUserExpectation animationExpectation)) None)
          in (case computeAnimationSmoothness L animationExpectation of
                Inl e \<Rightarrow> Inl e
              | Inr smoothness \<Rightarrow>
                  let diagnosticValues2 = addValue diagnosticValues1
                        (NumericValue (parentModelCanonicalUrl animationExpectation)
                           ''smoothness''
                           \<lparr>scalarUnit = UNIT, scalarValue = smoothness\<rparr>
                           (Some ''Mean Opinion Score for Animation smoothness'')
                           (Some (groupingKeysForUserExpectation animationExpectation)) None)
                  in Inr (weightedMean [throughput, smoothness] (perceptualBlend L),
                          diagnosticValues2)))"

subsection \<open>The score of one expectation and the metric\<close>

text \<open>The first stage of \<^verbatim>\<open>computeResponsiveness\<close>: the \<^verbatim>\<open>instanceof\<close> chain, giving
  the score, the description and the diagnostic values.\<close>

definition scoreOfStage ::
  "Lib \<Rightarrow> UserExpectation \<Rightarrow> NumericValue list \<Rightarrow>
   error + (real option \<times> string \<times> NumericValue list)" where
  "scoreOfStage L ue diagnosticValues =
     (case expectationKind ue of
        IdleExpectation \<Rightarrow> Inl ResponsivenessNotDefinedForIdle
      | LoadExpectation \<Rightarrow>
          Inr (Some (computeDurationResponsiveness LOAD_HISTOGRAM (duration ue)),
               ''Mean Opinion Score of Time to First ContentfulPaint'', diagnosticValues)
      | ResponseExpectation \<Rightarrow>
          (let histogram =
                 (if isAnimationBegin ue then FAST_RESPONSE_HISTOGRAM else RESPONSE_HISTOGRAM)
           in Inr (Some (computeDurationResponsiveness histogram (duration ue)),
                   ''Mean Opinion Score of input latency'', diagnosticValues))
      | AnimationExpectation \<Rightarrow>
          (case computeAnimationResponsiveness L ue diagnosticValues of
             Inl e \<Rightarrow> Inl e
           | Inr (score, diagnosticValues') \<Rightarrow>
               Inr (score,
                    ''Mean Opinion Score of perceptual blend of throughput and smoothness'',
                    diagnosticValues'))
      | OtherExpectation \<Rightarrow> Inl (UnrecognizedStage (stableId ue)))"

definition computeResponsiveness ::
  "Lib \<Rightarrow> UserExpectation \<Rightarrow> NumericValue list \<Rightarrow> error + (real \<times> NumericValue list)" where
  "computeResponsiveness L ue diagnosticValues =
     (case scoreOfStage L ue diagnosticValues of
        Inl e \<Rightarrow> Inl e
      | Inr (None, description, diagnosticValues') \<Rightarrow>
          Inl (UnableToComputeResponsiveness (stableId ue))
      | Inr (Some score, description, diagnosticValues') \<Rightarrow>
          Inr (score,
               addValue diagnosticValues'
                 (NumericValue (parentModelCanonicalUrl ue) ''responsiveness''
                    \<lparr>scalarUnit = UNIT, scalarValue = score\<rparr>
                    (Some description) (Some (groupingKeysForUserExpectation ue)) None)))"

text \<open>The \<^verbatim>\<open>forEach\<close> over the expectations of the user model, with the scores and the
  diagnostic values collected so far.\<close>

fun scoreExpectations ::
  "Lib \<Rightarrow> UserExpectation list \<Rightarrow> real list \<times> NumericValue list \<Rightarrow>
   error + (real list \<times> NumericValue list)" where
  "scoreExpectations L [] (scores, diagnosticValues) = Inr (scores, diagnosticValues)"
| "scoreExpectations L (ue # ues) (scores, diagnosticValues) =
     (if expectationKind ue = IdleExpectation
      then scoreExpectations L ues (scores, diagnosticValues)
      else (case computeResponsiveness L ue diagnosticValues of
              Inl e \<Rightarrow> Inl e
            | Inr (score, diagnosticValues') \<Rightarrow>
                scoreExpectations L ues (scores @ [score], diagnosticValues')))"

text \<open>What the metric reads of the model: its URL and the expectations of its user
  model. The result is the value list after the call, or the error thrown.\<close>

record ResponsivenessModel =
  canonicalUrl :: string
  expectations :: "UserExpectation list"

definition responsivenessMetric ::
  "Lib \<Rightarrow> NumericValue list \<Rightarrow> ResponsivenessModel \<Rightarrow> error + NumericValue list" where
  "responsivenessMetric L valueList model =
     (case scoreExpectations L (expectations model) ([], []) of
        Inl e \<Rightarrow> Inl e
      | Inr (scores, diagnosticValues) \<Rightarrow>
          (case weightedMean scores (perceptualBlend L) of
             None \<Rightarrow> Inr valueList
           | Some overallScore \<Rightarrow>
               Inr (addValue valueList
                      (NumericValue (canonicalUrl model) ''responsiveness''
                         \<lparr>scalarUnit = UNIT, scalarValue = overallScore\<rparr>
                         (Some ''Perceptual blend of responsiveness of RAIL user expectations'')
                         None (Some diagnosticValues)))))"

section \<open>\<^verbatim>\<open>memory_metric.js\<close>\<close>

subsection \<open>Memory dumps\<close>

datatype LevelOfDetail = LIGHT | DETAILED

text \<open>A node of the classification tree of the VM regions of a process: its title, its
  children and its byte statistics, a dictionary from the name of a statistic to bytes.\<close>

datatype VMRegionClassificationNode =
  VMRegionClassificationNode (title: string) (children: "VMRegionClassificationNode list")
    (byteStats: "real dict")

datatype MemoryAllocatorDump =
  MemoryAllocatorDump (allocatorName: string) (numerics: "ScalarNumeric dict")
    (allocatorChildren: "MemoryAllocatorDump list")

text \<open>What the metric reads of a process memory dump: \<^verbatim>\<open>process.name\<close>, the root
  allocator dumps, the method \<^verbatim>\<open>getMemoryAllocatorDumpByFullName\<close> (of
  model/container_memory_dump.js, which is missing: the method is part of the input) and
  the root of the VM region classification.\<close>

record ProcessMemoryDump =
  process_name :: "string option"
  memoryAllocatorDumps :: "MemoryAllocatorDump list option"
  getMemoryAllocatorDumpByFullName :: "string \<Rightarrow> MemoryAllocatorDump option"
  vmRegions :: "VMRegionClassificationNode option"

text \<open>A global memory dump is an object with an identity, \<open>dumpId\<close> here: the
  \<^verbatim>\<open>WeakMap\<close> of the classifier is keyed by it. Its process memory dumps are listed by
  process id in the order \<^verbatim>\<open>tr.b.iterItems\<close> visits them.\<close>

record GlobalMemoryDump =
  dumpId :: nat
  levelOfDetail :: "LevelOfDetail option"
  processMemoryDumps :: "(nat \<times> ProcessMemoryDump) list"

text \<open>A browser helper with \<^verbatim>\<open>helper.process.memoryDumps.map(d => d.globalMemoryDump)\<close>
  as \<open>processGlobalMemoryDumps\<close>.\<close>

record BrowserHelper =
  pid :: nat
  browserName :: string
  processGlobalMemoryDumps :: "GlobalMemoryDump list"

text \<open>\<open>browserHelpers\<close> is \<open>None\<close> when the model has no \<^verbatim>\<open>ChromeModelHelper\<close>.\<close>

record MemoryModel =
  browserHelpers :: "BrowserHelper list option"
  globalMemoryDumps :: "GlobalMemoryDump list"

text \<open>Modelled from the spec: \<^verbatim>\<open>tr.model.MemoryAllocatorDump.DISPLAYED_SIZE_NUMERIC_NAME\<close>
  (model/memory_allocator_dump.js is missing); section 3, an allocator dump has a "size".\<close>

definition DISPLAYED_SIZE_NUMERIC_NAME :: string where
  "DISPLAYED_SIZE_NUMERIC_NAME = ''size''"

record MetricSpec =
  path :: "string list"
  byteStat :: string

definition MMAPS_METRICS :: "MetricSpec dict" where
  "MMAPS_METRICS = [
     (''overall:pss'', \<lparr>path = [], byteStat = ''proportionalResident''\<rparr>),
     (''overall:private_dirty'', \<lparr>path = [], byteStat = ''privateDirtyResident''\<rparr>),
     (''java_heap:private_dirty'',
        \<lparr>path = [''Android'', ''Java runtime'', ''Spaces''],
         byteStat = ''privateDirtyResident''\<rparr>),
     (''ashmem:pss'', \<lparr>path = [''Android'', ''Ashmem''], byteStat = ''proportionalResident''\<rparr>),
     (''native_heap:pss'', \<lparr>path = [''Native heap''], byteStat = ''proportionalResident''\<rparr>)]"

definition ALL_PROCESS_NAMES :: string where
  "ALL_PROCESS_NAMES = ''all''"

subsection \<open>Splitting the global dumps by browser name\<close>

text \<open>The string of a number that \<^verbatim>\<open>key + nextIndex\<close> appends: the decimal digits of a
  natural number (an index is far below the size from which JavaScript prints exponents).\<close>

fun numberToString :: "nat \<Rightarrow> string" where
  "numberToString n =
     (if n < 10 then [''0123456789'' ! n]
      else numberToString (n div 10) @ [''0123456789'' ! (n mod 10)])"

declare numberToString.simps [simp del]

text \<open>The \<^verbatim>\<open>while\<close> loop of \<^verbatim>\<open>makeKeyUniqueAndSet\<close>, with \<open>uniqueKey\<close> and \<open>nextIndex\<close> as
  they are at the test of the loop. The loop ends because the keys of the map are finitely
  many and the candidates grow in length: an index of at least \<open>10 ^ k\<close> has more than
  \<open>k\<close> digits.\<close>

function findUniqueKey :: "'v dict \<Rightarrow> string \<Rightarrow> string \<Rightarrow> nat \<Rightarrow> string" where
  "findUniqueKey m key uniqueKey nextIndex =
     (if uniqueKey \<in> set (map fst m)
      then findUniqueKey m key (key @ numberToString nextIndex) (Suc nextIndex)
      else uniqueKey)"
  by pat_completeness auto
termination
proof (relation "measure (\<lambda>(m, key, uniqueKey, nextIndex).
    2 * (10 ^ sum_list (map (length \<circ> fst) m) - nextIndex) +
    (if uniqueKey \<in> set (map fst m) then 1 else 0))", goal_cases)
  case 1
  show ?case by simp
next
  case (2 m key uniqueKey nextIndex)
  have digits: "10 ^ k \<le> n \<Longrightarrow> k < length (numberToString n)" for k n
  proof (induction k arbitrary: n)
    case 0
    show ?case by (subst numberToString.simps) simp
  next
    case (Suc k)
    then have "10 ^ k \<le> n div 10" by simp
    then have "k < length (numberToString (n div 10))" by (rule Suc.IH)
    moreover have "\<not> n < 10"
    proof
      assume "n < 10"
      moreover have "(10::nat) \<le> 10 ^ Suc k" by simp
      ultimately show False using Suc.prems by simp
    qed
    ultimately show ?case by (subst numberToString.simps) simp
  qed
  let ?B = "(10::nat) ^ sum_list (map (length \<circ> fst) m)"
  have short: "length k \<le> sum_list (map (length \<circ> fst) m)" if "k \<in> set (map fst m)" for k
  proof -
    have "length k \<in> set (map (length \<circ> fst) m)" using that by auto
    then show ?thesis
      using member_le_sum_list[of "length k" "map (length \<circ> fst) m"] by simp
  qed
  show ?case
  proof (cases "nextIndex < ?B")
    case True
    then have "?B - Suc nextIndex < ?B - nextIndex" by arith
    moreover from this have "2 * (?B - Suc nextIndex) < Suc (2 * (?B - nextIndex))" by arith
    ultimately show ?thesis using 2 by simp
  next
    case False
    then have "sum_list (map (length \<circ> fst) m) < length (numberToString nextIndex)"
      using digits[of "sum_list (map (length \<circ> fst) m)" nextIndex] by simp
    then have "key @ numberToString nextIndex \<notin> set (map fst m)"
      using short[of "key @ numberToString nextIndex"] by auto
    then show ?thesis using 2 False by simp
  qed
qed

declare findUniqueKey.simps [simp del]

definition makeKeyUniqueAndSet :: "'v dict \<Rightarrow> string \<Rightarrow> 'v \<Rightarrow> 'v dict" where
  "makeKeyUniqueAndSet m key v = AList.update (findUniqueKey m key key 2) v m"

text \<open>The inner \<^verbatim>\<open>forEach\<close> of step 1: every global dump of the browser process is
  entered into \<open>globalDumpToBrowserHelper\<close>, from the identity of the dump to the process
  id of the helper that has claimed it.\<close>

fun claimGlobalDumps ::
  "BrowserHelper \<Rightarrow> GlobalMemoryDump list \<Rightarrow> (nat \<rightharpoonup> nat) \<Rightarrow> error + (nat \<rightharpoonup> nat)" where
  "claimGlobalDumps helper [] globalDumpToBrowserHelper = Inr globalDumpToBrowserHelper"
| "claimGlobalDumps helper (globalDump # rest) globalDumpToBrowserHelper =
     (case globalDumpToBrowserHelper (dumpId globalDump) of
        Some existingHelper \<Rightarrow> Inl (MemoryDumpIdClash existingHelper (pid helper))
      | None \<Rightarrow>
          claimGlobalDumps helper rest
            (globalDumpToBrowserHelper(dumpId globalDump \<mapsto> pid helper)))"

text \<open>The outer \<^verbatim>\<open>forEach\<close> of step 1, over the browser helpers.\<close>

fun classifyBrowsers ::
  "BrowserHelper list \<Rightarrow> GlobalMemoryDump list dict \<times> (nat \<rightharpoonup> nat) \<Rightarrow>
   error + (GlobalMemoryDump list dict \<times> (nat \<rightharpoonup> nat))" where
  "classifyBrowsers [] state = Inr state"
| "classifyBrowsers (helper # rest) (browserNameToGlobalDumps, globalDumpToBrowserHelper) =
     (let globalDumps = processGlobalMemoryDumps helper
      in case claimGlobalDumps helper globalDumps globalDumpToBrowserHelper of
           Inl e \<Rightarrow> Inl e
         | Inr globalDumpToBrowserHelper' \<Rightarrow>
             classifyBrowsers rest
               (makeKeyUniqueAndSet browserNameToGlobalDumps (browserName helper) globalDumps,
                globalDumpToBrowserHelper'))"

definition splitGlobalDumpsByBrowserName ::
  "MemoryModel \<Rightarrow> error + GlobalMemoryDump list dict" where
  "splitGlobalDumpsByBrowserName model =
     (case (case browserHelpers model of
              None \<Rightarrow> Inr ([], Map.empty)
            | Some helpers \<Rightarrow> classifyBrowsers helpers ([], Map.empty)) of
        Inl e \<Rightarrow> Inl e
      | Inr (browserNameToGlobalDumps, globalDumpToBrowserHelper) \<Rightarrow>
          let unclassifiedGlobalDumps =
                filter (\<lambda>g. globalDumpToBrowserHelper (dumpId g) = None)
                  (globalMemoryDumps model)
          in if length unclassifiedGlobalDumps > 0
             then Inr (makeKeyUniqueAndSet browserNameToGlobalDumps ''unknown''
                         unclassifiedGlobalDumps)
             else Inr browserNameToGlobalDumps)"

subsection \<open>The extractors\<close>

text \<open>An extractor is the callback handed to \<^verbatim>\<open>addPerProcessNameMemoryDumpValues\<close>. It
  does nothing but call \<^verbatim>\<open>addProcessScalar\<close>, so it is modelled by the list of the
  arguments of these calls, in order.\<close>

type_synonym extractor = "ProcessMemoryDump \<Rightarrow> (string \<times> ScalarNumeric option) list"

text \<open>The callback of \<^verbatim>\<open>addGeneralMemoryDumpValues\<close>.\<close>

definition generalExtractor :: extractor where
  "generalExtractor processDump =
     (''process_count'',
        Some \<lparr>scalarUnit = unitlessNumber_smallerIsBetter, scalarValue = 1\<rparr>) #
     (case memoryAllocatorDumps processDump of
        None \<Rightarrow> []
      | Some roots \<Rightarrow>
          concat (map (\<lambda>rootAllocatorDump.
            [(''subsystem:'' @ allocatorName rootAllocatorDump,
                map_of (numerics rootAllocatorDump) DISPLAYED_SIZE_NUMERIC_NAME),
             (''subsystem:'' @ allocatorName rootAllocatorDump @ '':allocated_objects'',
                map_of (numerics rootAllocatorDump) ''allocated_objects_size'')]) roots) @
          (case getMemoryAllocatorDumpByFullName processDump ''gpu/android_memtrack'' of
             None \<Rightarrow> []
           | Some memtrackDump \<Rightarrow>
               map (\<lambda>memtrackChildDump.
                 (''android_memtrack:'' @ allocatorName memtrackChildDump,
                  map_of (numerics memtrackChildDump) ''memtrack_pss''))
                 (allocatorChildren memtrackDump)))"

text \<open>\<^verbatim>\<open>tr.b.findFirstInArray(node.children, c => c.title === path[i])\<close> is \<^const>\<open>find\<close>.\<close>

fun getDescendantVmRegionClassificationNode ::
  "VMRegionClassificationNode option \<Rightarrow> string list \<Rightarrow> VMRegionClassificationNode option" where
  "getDescendantVmRegionClassificationNode node [] = node"
| "getDescendantVmRegionClassificationNode None (t # titles) = None"
| "getDescendantVmRegionClassificationNode (Some node) (t # titles) =
     getDescendantVmRegionClassificationNode (find (\<lambda>c. title c = t) (children node)) titles"

text \<open>The value of one metric: \<^verbatim>\<open>node ? (node.byteStats[metricSpec.byteStat] || 0) : 0\<close>.\<close>

definition vmstatsValue :: "ProcessMemoryDump \<Rightarrow> MetricSpec \<Rightarrow> real" where
  "vmstatsValue processDump metricSpec =
     (case getDescendantVmRegionClassificationNode (vmRegions processDump) (path metricSpec) of
        None \<Rightarrow> 0
      | Some node \<Rightarrow>
          (case map_of (byteStats node) (byteStat metricSpec) of
             None \<Rightarrow> 0
           | Some bytes \<Rightarrow> bytes))"

text \<open>The callback of \<^verbatim>\<open>addDetailedMemoryDumpValues\<close>.\<close>

definition detailedExtractor :: extractor where
  "detailedExtractor processDump =
     map (\<lambda>(metricName, metricSpec).
       (''vmstats:'' @ metricName,
        Some \<lparr>scalarUnit = sizeInBytes_smallerIsBetter,
              scalarValue = vmstatsValue processDump metricSpec\<rparr>)) MMAPS_METRICS"

subsection \<open>Sums by process name\<close>

definition toLowerCaseChar :: "char \<Rightarrow> char" where
  "toLowerCaseChar c =
     (case map_of (zip ''ABCDEFGHIJKLMNOPQRSTUVWXYZ'' ''abcdefghijklmnopqrstuvwxyz'') c of
        None \<Rightarrow> c
      | Some lower \<Rightarrow> lower)"

text \<open>\<^verbatim>\<open>String.prototype.toLowerCase\<close>, on the letters of ASCII.\<close>

definition toLowerCase :: "string \<Rightarrow> string" where
  "toLowerCase s = map toLowerCaseChar s"

text \<open>\<^verbatim>\<open>String.prototype.replace\<close> with a pattern that is a string of one character: the
  first occurrence of the pattern is replaced, and no other.\<close>

fun replaceFirst :: "char \<Rightarrow> char \<Rightarrow> string \<Rightarrow> string" where
  "replaceFirst pattern replacement [] = []"
| "replaceFirst pattern replacement (c # cs) =
     (if c = pattern then replacement # cs else c # replaceFirst pattern replacement cs)"

text \<open>The process name of a dump, the key of its group:
  \<^verbatim>\<open>(processDump.process.name || 'unknown').toLowerCase().replace(' ', '_')\<close>. The empty
  name is falsy, like the missing one.\<close>

definition processNameOf :: "ProcessMemoryDump \<Rightarrow> string" where
  "processNameOf processDump =
     (let rawProcessName =
            (case process_name processDump of
               None \<Rightarrow> ''unknown''
             | Some name \<Rightarrow> if name = [] then ''unknown'' else name)
      in replaceFirst (CHR '' '') (CHR ''_'') (toLowerCase rawProcessName))"

definition addProcessScalar ::
  "string \<Rightarrow> ScalarNumeric dict \<Rightarrow> string \<Rightarrow> ScalarNumeric option \<Rightarrow>
   error + ScalarNumeric dict" where
  "addProcessScalar processName valueNameToScalar name processDumpScalar =
     (case processDumpScalar of
        None \<Rightarrow> Inr valueNameToScalar
      | Some scalar \<Rightarrow>
          (case map_of valueNameToScalar name of
             None \<Rightarrow>
               Inr (AList.update name
                      \<lparr>scalarUnit = scalarUnit scalar, scalarValue = scalarValue scalar\<rparr>
                      valueNameToScalar)
           | Some processNameSumScalar \<Rightarrow>
               if scalarUnit scalar \<noteq> scalarUnit processNameSumScalar
               then Inl (MultipleUnitsOfProcesses name processName
                           (scalarUnit processNameSumScalar) (scalarUnit scalar))
               else Inr (AList.update name
                           (processNameSumScalar\<lparr>scalarValue :=
                              scalarValue processNameSumScalar + scalarValue scalar\<rparr>)
                           valueNameToScalar)))"

text \<open>The calls of one run of the extractor, applied to the sums of the group.\<close>

fun addProcessScalars ::
  "string \<Rightarrow> ScalarNumeric dict \<Rightarrow> (string \<times> ScalarNumeric option) list \<Rightarrow>
   error + ScalarNumeric dict" where
  "addProcessScalars processName valueNameToScalar [] = Inr valueNameToScalar"
| "addProcessScalars processName valueNameToScalar ((name, scalar) # calls) =
     (case addProcessScalar processName valueNameToScalar name scalar of
        Inl e \<Rightarrow> Inl e
      | Inr valueNameToScalar' \<Rightarrow> addProcessScalars processName valueNameToScalar' calls)"

text \<open>The loop over the process memory dumps of one global dump, with
  \<open>processNameToValueNameToScalar\<close> as it is so far. The group of a process name exists
  from the first dump of that name on, also when the extractor adds nothing to it.\<close>

fun sumProcessDumps ::
  "extractor \<Rightarrow> (nat \<times> ProcessMemoryDump) list \<Rightarrow> ScalarNumeric dict dict \<Rightarrow>
   error + ScalarNumeric dict dict" where
  "sumProcessDumps customProcessDumpValueExtractor [] processNameToValueNameToScalar =
     Inr processNameToValueNameToScalar"
| "sumProcessDumps customProcessDumpValueExtractor ((processId, processDump) # rest)
     processNameToValueNameToScalar =
     (let processName = processNameOf processDump;
          valueNameToScalar =
            (case map_of processNameToValueNameToScalar processName of
               None \<Rightarrow> []
             | Some existing \<Rightarrow> existing)
      in case addProcessScalars processName valueNameToScalar
                (customProcessDumpValueExtractor processDump) of
           Inl e \<Rightarrow> Inl e
         | Inr valueNameToScalar' \<Rightarrow>
             sumProcessDumps customProcessDumpValueExtractor rest
               (AList.update processName valueNameToScalar' processNameToValueNameToScalar))"

fun calculatePerProcessNameMemoryDumpValues ::
  "GlobalMemoryDump list \<Rightarrow> extractor \<Rightarrow> error + ScalarNumeric dict dict list" where
  "calculatePerProcessNameMemoryDumpValues [] customProcessDumpValueExtractor = Inr []"
| "calculatePerProcessNameMemoryDumpValues (globalDump # globalDumps)
     customProcessDumpValueExtractor =
     (case sumProcessDumps customProcessDumpValueExtractor
             (processMemoryDumps globalDump) [] of
        Inl e \<Rightarrow> Inl e
      | Inr processNameToValueNameToScalar \<Rightarrow>
          (case calculatePerProcessNameMemoryDumpValues globalDumps
                  customProcessDumpValueExtractor of
             Inl e \<Rightarrow> Inl e
           | Inr rest \<Rightarrow> Inr (processNameToValueNameToScalar # rest)))"

subsection \<open>Totals over all process names\<close>

text \<open>Modelled from the spec: \<^verbatim>\<open>tr.b.dictionaryValues\<close> and \<^verbatim>\<open>tr.b.invertArrayOfDicts\<close>
  (base/iteration_helpers.js is missing); section 4.5, stage 2 sums "each value-name across
  all real process-name groups": the array of dictionaries becomes a dictionary of
  arrays, one array per key in the order the keys are first seen, with the entry of
  every dictionary at its index and \<^verbatim>\<open>undefined\<close> where a dictionary has no such key.\<close>

definition dictionaryValues :: "'v dict \<Rightarrow> 'v list" where
  "dictionaryValues d = map snd d"

text \<open>Modelled from the spec: \<^verbatim>\<open>tr.b.invertArrayOfDicts\<close> (base/iteration_helpers.js is
  missing), as described above.\<close>

definition invertArrayOfDicts :: "'v dict list \<Rightarrow> 'v option list dict" where
  "invertArrayOfDicts array =
     map (\<lambda>key. (key, map (\<lambda>d. map_of d key) array))
       (rev (remdups (rev (concat (map (map fst) array)))))"

text \<open>The \<^verbatim>\<open>reduce\<close> of the totals, over the scalars of one value name.\<close>

fun reduceScalars ::
  "string \<Rightarrow> Unit \<Rightarrow> ScalarNumeric option list \<Rightarrow> real \<Rightarrow> error + real" where
  "reduceScalars valueName unit [] accumulator = Inr accumulator"
| "reduceScalars valueName unit (None # scalars) accumulator =
     reduceScalars valueName unit scalars accumulator"
| "reduceScalars valueName unit (Some scalar # scalars) accumulator =
     (if scalarUnit scalar \<noteq> unit
      then Inl (MultipleUnitsOfDifferentProcesses valueName unit (scalarUnit scalar))
      else reduceScalars valueName unit scalars (accumulator + scalarValue scalar))"

text \<open>The callback of \<^verbatim>\<open>tr.b.mapItems\<close>: the total of one value name. The unit is the
  unit of the first scalar that is there, \<^verbatim>\<open>tr.b.findFirstInArray(perProcessScalars).unit\<close>;
  reading the unit of \<^verbatim>\<open>undefined\<close> would be a \<^verbatim>\<open>TypeError\<close>.\<close>

definition totalScalar :: "string \<Rightarrow> ScalarNumeric option list \<Rightarrow> error + ScalarNumeric" where
  "totalScalar valueName perProcessScalars =
     (case find (\<lambda>scalar. scalar \<noteq> None) perProcessScalars of
        Some (Some first) \<Rightarrow>
          (case reduceScalars valueName (scalarUnit first) perProcessScalars 0 of
             Inl e \<Rightarrow> Inl e
           | Inr totalValue \<Rightarrow>
               Inr \<lparr>scalarUnit = scalarUnit first, scalarValue = totalValue\<rparr>)
      | _ \<Rightarrow> Inl TypeError)"

fun totalScalars :: "ScalarNumeric option list dict \<Rightarrow> error + ScalarNumeric dict" where
  "totalScalars [] = Inr []"
| "totalScalars ((valueName, perProcessScalars) # rest) =
     (case totalScalar valueName perProcessScalars of
        Inl e \<Rightarrow> Inl e
      | Inr allScalar \<Rightarrow>
          (case totalScalars rest of
             Inl e \<Rightarrow> Inl e
           | Inr totals \<Rightarrow> Inr ((valueName, allScalar) # totals)))"

text \<open>The callback of the \<^verbatim>\<open>forEach\<close> of
  \<^verbatim>\<open>injectTotalsIntoPerProcessNameMemoryDumpValues\<close>: the totals of one timestamp.\<close>

definition injectTotals :: "ScalarNumeric dict dict \<Rightarrow> error + ScalarNumeric dict dict" where
  "injectTotals processNameToValueNameToScalar =
     (let valueNameToProcessNameToScalar =
            invertArrayOfDicts (dictionaryValues processNameToValueNameToScalar)
      in case totalScalars valueNameToProcessNameToScalar of
           Inl e \<Rightarrow> Inl e
         | Inr totals \<Rightarrow>
             Inr (AList.update ALL_PROCESS_NAMES totals processNameToValueNameToScalar))"

fun injectTotalsIntoPerProcessNameMemoryDumpValues ::
  "ScalarNumeric dict dict list \<Rightarrow> error + ScalarNumeric dict dict list" where
  "injectTotalsIntoPerProcessNameMemoryDumpValues [] = Inr []"
| "injectTotalsIntoPerProcessNameMemoryDumpValues (processNameToValueNameToScalar # rest) =
     (case injectTotals processNameToValueNameToScalar of
        Inl e \<Rightarrow> Inl e
      | Inr withTotals \<Rightarrow>
          (case injectTotalsIntoPerProcessNameMemoryDumpValues rest of
             Inl e \<Rightarrow> Inl e
           | Inr rest' \<Rightarrow> Inr (withTotals # rest')))"

text \<open>The first two stages of \<^verbatim>\<open>addPerProcessNameMemoryDumpValues\<close> for the global dumps
  of one browser: the sums by process name of the dumps that pass the filter, with the
  totals. The third stage, which reports them as histograms, follows below.\<close>

definition perProcessNameMemoryDumpValues ::
  "GlobalMemoryDump list \<Rightarrow> (GlobalMemoryDump \<Rightarrow> bool) \<Rightarrow> extractor \<Rightarrow>
   error + ScalarNumeric dict dict list" where
  "perProcessNameMemoryDumpValues globalDumps customGlobalDumpFilter
     customProcessDumpValueExtractor =
     (let filteredGlobalDumps = filter customGlobalDumpFilter globalDumps
      in case calculatePerProcessNameMemoryDumpValues filteredGlobalDumps
                customProcessDumpValueExtractor of
           Inl e \<Rightarrow> Inl e
         | Inr timeToProcessNameToValueNameToScalar \<Rightarrow>
             injectTotalsIntoPerProcessNameMemoryDumpValues
               timeToProcessNameToValueNameToScalar)"

text \<open>The sums and totals that \<^verbatim>\<open>addGeneralMemoryDumpValues\<close> and
  \<^verbatim>\<open>addDetailedMemoryDumpValues\<close> report for the dumps of one browser.\<close>

definition generalMemoryDumpValues ::
  "GlobalMemoryDump list \<Rightarrow> error + ScalarNumeric dict dict list" where
  "generalMemoryDumpValues globalDumps =
     perProcessNameMemoryDumpValues globalDumps (\<lambda>gmd. True) generalExtractor"

definition detailedMemoryDumpValues ::
  "GlobalMemoryDump list \<Rightarrow> error + ScalarNumeric dict dict list" where
  "detailedMemoryDumpValues globalDumps =
     perProcessNameMemoryDumpValues globalDumps (\<lambda>g. levelOfDetail g = Some DETAILED)
       detailedExtractor"

subsection \<open>Histograms over the timestamps\<close>

text \<open>The two entries of \<^verbatim>\<open>MEMORY_NUMERIC_BUILDER_MAP\<close>, as the source configures them:
  \<^verbatim>\<open>createLinear(unit, Range(0, 20), 20)\<close> for the plain numbers, and for the sizes a
  builder from 0 with a bin boundary at 1024 and \<open>4 * 24\<close> exponential bins up to 16 GiB.
  A unit that was never set has no builder: \<^verbatim>\<open>get\<close> gives \<^verbatim>\<open>undefined\<close>, and calling
  \<^verbatim>\<open>build\<close> on it is a \<^verbatim>\<open>TypeError\<close>.\<close>

datatype NumericBuilder =
    LinearBuilder Unit real real nat
  | BoundaryAndExponentialBuilder Unit real real real nat

definition MEMORY_NUMERIC_BUILDER_MAP :: "Unit \<Rightarrow> NumericBuilder option" where
  "MEMORY_NUMERIC_BUILDER_MAP unit =
     (if unit = unitlessNumber_smallerIsBetter
      then Some (LinearBuilder unitlessNumber_smallerIsBetter 0 20 20)
      else if unit = sizeInBytes_smallerIsBetter
      then Some (BoundaryAndExponentialBuilder sizeInBytes_smallerIsBetter 0 1024
                   (16 * 1024 * 1024 * 1024) (4 * 24))
      else None)"

text \<open>Modelled from the spec: \<^verbatim>\<open>NumericBuilder.build\<close> and \<^verbatim>\<open>Numeric.add\<close> (value/numeric.js
  is missing); section 3, "a mutable, unit-tagged histogram accumulator built from a
  unit-specific binning configuration, into which scalar samples are added one at a
  time": the histogram is its builder, which has the unit, with the samples added so far,
  in the order of the calls.\<close>

record BuiltNumeric =
  numericBuilder :: NumericBuilder
  numericSamples :: "real list"

definition buildNumeric :: "NumericBuilder \<Rightarrow> BuiltNumeric" where
  "buildNumeric builder = \<lparr>numericBuilder = builder, numericSamples = []\<rparr>"

definition addSample :: "BuiltNumeric \<Rightarrow> real \<Rightarrow> BuiltNumeric" where
  "addSample numeric sample = numeric\<lparr>numericSamples := numericSamples numeric @ [sample]\<rparr>"

text \<open>The \<^verbatim>\<open>for\<close> loop of \<^verbatim>\<open>mergeScalarsIntoNumeric\<close>: the value of every scalar is added,
  and 0 where the scalar is \<^verbatim>\<open>undefined\<close>. The unit of a scalar is not read.\<close>

fun addScalars :: "ScalarNumeric option list \<Rightarrow> BuiltNumeric \<Rightarrow> BuiltNumeric" where
  "addScalars [] numeric = numeric"
| "addScalars (scalar # scalars) numeric =
     addScalars scalars
       (addSample numeric (case scalar of None \<Rightarrow> 0 | Some s \<Rightarrow> scalarValue s))"

text \<open>The builder is the one of the unit of the first scalar that is there, as in the
  totals.\<close>

definition mergeScalarsIntoNumeric :: "ScalarNumeric option list \<Rightarrow> error + BuiltNumeric" where
  "mergeScalarsIntoNumeric scalars =
     (case find (\<lambda>scalar. scalar \<noteq> None) scalars of
        Some (Some first) \<Rightarrow>
          (case MEMORY_NUMERIC_BUILDER_MAP (scalarUnit first) of
             None \<Rightarrow> Inl TypeError
           | Some builder \<Rightarrow> Inr (addScalars scalars (buildNumeric builder)))
      | _ \<Rightarrow> Inl TypeError)"

text \<open>\<^verbatim>\<open>new tr.v.NumericValue(model.canonicalUrl, name, numeric)\<close> with a histogram, and
  \<^verbatim>\<open>Array.prototype.join\<close>.\<close>

datatype MemoryNumericValue =
  MemoryNumericValue (memoryValueCanonicalUrl: string) (memoryValueName: string)
    (memoryValueNumeric: BuiltNumeric)

fun joinStrings :: "string list \<Rightarrow> string \<Rightarrow> string" where
  "joinStrings [] separator = []"
| "joinStrings [x] separator = x"
| "joinStrings (x # y # xs) separator = x @ separator @ joinStrings (y # xs) separator"

text \<open>The inner \<^verbatim>\<open>tr.b.iterItems\<close> of \<^verbatim>\<open>reportPerProcessNameMemoryDumpValues\<close>, over the
  value names of one process name; a value is appended to the value list
  (\<^verbatim>\<open>valueList.addValue\<close>).\<close>

fun reportValueNames ::
  "string \<Rightarrow> string \<Rightarrow> string \<Rightarrow> ScalarNumeric option list dict \<Rightarrow>
   MemoryNumericValue list \<Rightarrow> error + MemoryNumericValue list" where
  "reportValueNames modelUrl browser processName [] valueList = Inr valueList"
| "reportValueNames modelUrl browser processName ((valueName, timeToScalar) # rest)
     valueList =
     (case mergeScalarsIntoNumeric timeToScalar of
        Inl e \<Rightarrow> Inl e
      | Inr numeric \<Rightarrow>
          reportValueNames modelUrl browser processName rest
            (valueList @
             [MemoryNumericValue modelUrl
                (joinStrings [''memory'', browser, processName, valueName] '':'')
                numeric]))"

text \<open>The outer \<^verbatim>\<open>tr.b.iterItems\<close>, over the process names. A timestamp at which the
  process name is missing is \<^verbatim>\<open>undefined\<close> in the array of the process name;
  \<^verbatim>\<open>tr.b.invertArrayOfDicts\<close> finds no key there, as in an empty dictionary.\<close>

fun reportProcessNames ::
  "string \<Rightarrow> string \<Rightarrow> ScalarNumeric dict option list dict \<Rightarrow>
   MemoryNumericValue list \<Rightarrow> error + MemoryNumericValue list" where
  "reportProcessNames modelUrl browser [] valueList = Inr valueList"
| "reportProcessNames modelUrl browser ((processName, timeToValueNameToScalar) # rest)
     valueList =
     (let valueNameToTimeToScalar =
            invertArrayOfDicts
              (map (\<lambda>item. case item of None \<Rightarrow> [] | Some d \<Rightarrow> d) timeToValueNameToScalar)
      in case reportValueNames modelUrl browser processName valueNameToTimeToScalar
                valueList of
           Inl e \<Rightarrow> Inl e
         | Inr valueList' \<Rightarrow> reportProcessNames modelUrl browser rest valueList')"

definition reportPerProcessNameMemoryDumpValues ::
  "ScalarNumeric dict dict list \<Rightarrow> string \<Rightarrow> MemoryNumericValue list \<Rightarrow> string \<Rightarrow>
   error + MemoryNumericValue list" where
  "reportPerProcessNameMemoryDumpValues timeToProcessNameToValueNameToScalar browser
     valueList modelUrl =
     (let processNameToTimeToValueNameToScalar =
            invertArrayOfDicts timeToProcessNameToValueNameToScalar
      in reportProcessNames modelUrl browser processNameToTimeToValueNameToScalar
           valueList)"

text \<open>\<^verbatim>\<open>addPerProcessNameMemoryDumpValues\<close>: the \<^verbatim>\<open>forEach\<close> over the browsers, each with its
  three stages. Of the model only the URL is read.\<close>

fun addPerProcessNameMemoryDumpValues ::
  "GlobalMemoryDump list dict \<Rightarrow> (GlobalMemoryDump \<Rightarrow> bool) \<Rightarrow> extractor \<Rightarrow>
   MemoryNumericValue list \<Rightarrow> string \<Rightarrow> error + MemoryNumericValue list" where
  "addPerProcessNameMemoryDumpValues [] customGlobalDumpFilter
     customProcessDumpValueExtractor valueList modelUrl = Inr valueList"
| "addPerProcessNameMemoryDumpValues ((browser, globalDumps) # rest) customGlobalDumpFilter
     customProcessDumpValueExtractor valueList modelUrl =
     (case perProcessNameMemoryDumpValues globalDumps customGlobalDumpFilter
             customProcessDumpValueExtractor of
        Inl e \<Rightarrow> Inl e
      | Inr timeToProcessNameToValueNameToScalar \<Rightarrow>
          (case reportPerProcessNameMemoryDumpValues timeToProcessNameToValueNameToScalar
                  browser valueList modelUrl of
             Inl e \<Rightarrow> Inl e
           | Inr valueList' \<Rightarrow>
               addPerProcessNameMemoryDumpValues rest customGlobalDumpFilter
                 customProcessDumpValueExtractor valueList' modelUrl))"

text \<open>\<^verbatim>\<open>addGeneralMemoryDumpValues\<close> and \<^verbatim>\<open>addDetailedMemoryDumpValues\<close>, with the
  filters and the extractors of the source.\<close>

definition addGeneralMemoryDumpValues ::
  "GlobalMemoryDump list dict \<Rightarrow> MemoryNumericValue list \<Rightarrow> string \<Rightarrow>
   error + MemoryNumericValue list" where
  "addGeneralMemoryDumpValues browserNameToGlobalDumps valueList modelUrl =
     addPerProcessNameMemoryDumpValues browserNameToGlobalDumps (\<lambda>gmd. True)
       generalExtractor valueList modelUrl"

definition addDetailedMemoryDumpValues ::
  "GlobalMemoryDump list dict \<Rightarrow> MemoryNumericValue list \<Rightarrow> string \<Rightarrow>
   error + MemoryNumericValue list" where
  "addDetailedMemoryDumpValues browserNameToGlobalDumps valueList modelUrl =
     addPerProcessNameMemoryDumpValues browserNameToGlobalDumps
       (\<lambda>g. levelOfDetail g = Some DETAILED) detailedExtractor valueList modelUrl"

section \<open>Auxiliary notions of the proofs\<close>

subsection \<open>Expectations\<close>

definition noFrames :: "UserExpectation \<Rightarrow> bool" where
  "noFrames ue = (frameEvents ue = None \<or> frameEvents ue = Some [])"

abbreviation scoreable :: "UserExpectation \<Rightarrow> bool" where
  "scoreable ue \<equiv> expectationKind ue \<noteq> IdleExpectation"

subsection \<open>The scoring tables\<close>

text \<open>The three tables of the metric.\<close>

definition scoringTables :: "Numeric list" where
  "scoringTables = [RESPONSE_HISTOGRAM, FAST_RESPONSE_HISTOGRAM, LOAD_HISTOGRAM]"

subsection \<open>The interpolated count as a piecewise linear function\<close>

text \<open>The count is the piecewise linear function through the knots of the table: the
  upper boundary of the underflow bin, the centres of the central bins and the lower
  boundary of the overflow bin, each with the count of its bin.\<close>

fun interpolateKnots :: "(real \<times> real) list \<Rightarrow> real \<Rightarrow> real" where
  "interpolateKnots [] v = 0"
| "interpolateKnots [(x, y)] v = y"
| "interpolateKnots ((x0, y0) # (x1, y1) # K) v =
     (if v < x1 then lerp (normalize_range v x0 x1) y0 y1
      else interpolateKnots ((x1, y1) # K) v)"

fun contiguous :: "real \<Rightarrow> Bin list \<Rightarrow> real \<Rightarrow> bool" where
  "contiguous lo [] hi = (lo = hi)"
| "contiguous lo (b # bs) hi =
     (binMin b = lo \<and> binMin b < binMax b \<and> contiguous (binMax b) bs hi)"

definition knots :: "Numeric \<Rightarrow> (real \<times> real) list" where
  "knots h =
     (binMax (underflowBin h), binCount (underflowBin h)) #
     map (\<lambda>b. (binCenter b, binCount b)) (centralBins h) @
     [(binMin (overflowBin h), binCount (overflowBin h))]"

definition knots_ok :: "(real \<times> real) list \<Rightarrow> bool" where
  "knots_ok K = (sorted_wrt (<) (map fst K) \<and> sorted_wrt (\<ge>) (map snd K))"

definition wellFormedTable :: "Numeric \<Rightarrow> bool" where
  "wellFormedTable h =
     (binMax (underflowBin h) = numericMin h \<and> binMin (overflowBin h) = numericMax h \<and>
      contiguous (numericMin h) (centralBins h) (numericMax h) \<and> knots_ok (knots h))"

subsection \<open>Units in the table of a global dump\<close>

text \<open>The unit of the value \<open>n\<close> of the group \<open>k\<close>, in the table of one global dump.\<close>

definition unitIn :: "ScalarNumeric dict dict \<Rightarrow> string \<Rightarrow> string \<Rightarrow> Unit option" where
  "unitIn t k n =
     (case map_of t k of
        None \<Rightarrow> None
      | Some d \<Rightarrow> map_option scalarUnit (map_of d n))"

subsection \<open>Tables of the VM statistics\<close>

text \<open>Every scalar of the dictionary \<open>d\<close> has the unit \<open>u\<close>.\<close>

definition unitsAre :: "Unit \<Rightarrow> ScalarNumeric dict \<Rightarrow> bool" where
  "unitsAre u d = (\<forall>n s. map_of d n = Some s \<longrightarrow> scalarUnit s = u)"

text \<open>The value names of the five metrics of \<open>MMAPS_METRICS\<close>.\<close>

definition vmstatsNames :: "string list" where
  "vmstatsNames = map (\<lambda>(metricName, metricSpec). ''vmstats:'' @ metricName) MMAPS_METRICS"

text \<open>Every scalar that the table \<open>t\<close> maps to is in bytes; every scalar of every
  entry of \<open>t\<close> is in bytes.\<close>

definition tableInBytes :: "ScalarNumeric dict dict \<Rightarrow> bool" where
  "tableInBytes t = (\<forall>k d. map_of t k = Some d \<longrightarrow> unitsAre sizeInBytes_smallerIsBetter d)"

definition entriesInBytes :: "ScalarNumeric dict dict \<Rightarrow> bool" where
  "entriesInBytes t =
     (\<forall>(k, d)\<in>set t. \<forall>(n, s)\<in>set d. scalarUnit s = sizeInBytes_smallerIsBetter)"

text \<open>The group \<open>k\<close> of the table \<open>t\<close> has all five values of the VM statistics, in
  bytes.\<close>

definition hasVmstats :: "ScalarNumeric dict dict \<Rightarrow> string \<Rightarrow> bool" where
  "hasVmstats t k = (\<forall>n\<in>set vmstatsNames. unitIn t k n = Some sizeInBytes_smallerIsBetter)"

subsection \<open>The process name as the specification words it\<close>

text \<open>The readings of "spaces collapsed": every run of spaces of the name is replaced by
  the string \<open>r\<close>, which is empty (the spaces are dropped) or one space (the runs are
  merged).\<close>

function collapseSpaces :: "string \<Rightarrow> string \<Rightarrow> string" where
  "collapseSpaces r [] = []"
| "collapseSpaces r (c # cs) =
     (if c = CHR '' '' then r @ collapseSpaces r (dropWhile (\<lambda>d. d = CHR '' '') cs)
      else c # collapseSpaces r cs)"
  by pat_completeness auto
termination
  by (relation "measure (\<lambda>(r, s). length s)")
    (auto simp: length_dropWhile_le less_Suc_eq_le)

definition spaceCollapsedName :: "string \<Rightarrow> ProcessMemoryDump \<Rightarrow> string" where
  "spaceCollapsedName r processDump =
     collapseSpaces r (toLowerCase
       (case process_name processDump of None \<Rightarrow> ''unknown'' | Some name \<Rightarrow> name))"

section \<open>Example inputs\<close>

definition exampleFrames :: "FrameEvent list" where
  "exampleFrames = [\<lparr>frameStart = 0\<rparr>, \<lparr>frameStart = 17\<rparr>, \<lparr>frameStart = 33\<rparr>]"

definition exampleAnimation :: "real \<Rightarrow> UserExpectation" where
  "exampleAnimation d = \<lparr>
     stableId = ''UserModel.0'', stageTitle = ''Animation'', initiatorTitle = ''Scroll'',
     parentModelCanonicalUrl = ''http://example.com/'',
     expectationKind = AnimationExpectation, expectationStart = 0, duration = d,
     frameEvents = Some exampleFrames, isAnimationBegin = False\<rparr>"

definition exampleLib :: Lib where
  "exampleLib = \<lparr>timestampsDiscrepancy = (\<lambda>timestamps absolute. 0),
                  perceptualBlend = (\<lambda>index score. exp (1 - score))\<rparr>"

definition exampleLoad :: "real \<Rightarrow> UserExpectation" where
  "exampleLoad d = \<lparr>
     stableId = ''UserModel.1'', stageTitle = ''Load'', initiatorTitle = ''Load'',
     parentModelCanonicalUrl = ''http://example.com/'',
     expectationKind = LoadExpectation, expectationStart = 0, duration = d,
     frameEvents = None, isAnimationBegin = False\<rparr>"

definition exampleIdle :: UserExpectation where
  "exampleIdle = \<lparr>
     stableId = ''UserModel.2'', stageTitle = ''Idle'', initiatorTitle = ''Idle'',
     parentModelCanonicalUrl = ''http://example.com/'',
     expectationKind = IdleExpectation, expectationStart = 7000, duration = 100,
     frameEvents = None, isAnimationBegin = False\<rparr>"

definition exampleNoFrames :: UserExpectation where
  "exampleNoFrames = (exampleAnimation 1000)\<lparr>frameEvents := Some []\<rparr>"

definition exampleModel :: "UserExpectation list \<Rightarrow> ResponsivenessModel" where
  "exampleModel ues = \<lparr>canonicalUrl = ''http://example.com/'', expectations = ues\<rparr>"

definition exampleProcess :: "string option \<Rightarrow> ProcessMemoryDump" where
  "exampleProcess name = \<lparr>process_name = name, memoryAllocatorDumps = None,
     getMemoryAllocatorDumpByFullName = (\<lambda>fullName. None), vmRegions = None\<rparr>"

definition exampleGlobalDump ::
  "nat \<Rightarrow> LevelOfDetail \<Rightarrow> (nat \<times> ProcessMemoryDump) list \<Rightarrow> GlobalMemoryDump" where
  "exampleGlobalDump i detail processDumps =
     \<lparr>dumpId = i, levelOfDetail = Some detail, processMemoryDumps = processDumps\<rparr>"

definition exampleBrowser :: "nat \<Rightarrow> GlobalMemoryDump list \<Rightarrow> BrowserHelper" where
  "exampleBrowser p globalDumps =
     \<lparr>pid = p, browserName = ''chrome'', processGlobalMemoryDumps = globalDumps\<rparr>"

definition exampleTwoBrowsers :: MemoryModel where
  "exampleTwoBrowsers = \<lparr>
     browserHelpers = Some [exampleBrowser 10 [exampleGlobalDump 1 LIGHT []],
                            exampleBrowser 20 [exampleGlobalDump 2 LIGHT []]],
     globalMemoryDumps = [exampleGlobalDump 1 LIGHT [], exampleGlobalDump 2 LIGHT []]\<rparr>"

definition exampleV8Process :: "string \<Rightarrow> Unit \<Rightarrow> ProcessMemoryDump" where
  "exampleV8Process name u = \<lparr>
     process_name = Some name,
     memoryAllocatorDumps =
       Some [MemoryAllocatorDump ''v8'' [(''size'', \<lparr>scalarUnit = u, scalarValue = 4096\<rparr>)] []],
     getMemoryAllocatorDumpByFullName = (\<lambda>fullName. None),
     vmRegions = None\<rparr>"

definition exampleObjectsProcess :: "Unit \<Rightarrow> ProcessMemoryDump" where
  "exampleObjectsProcess u = \<lparr>
     process_name = Some ''Renderer'',
     memoryAllocatorDumps =
       Some [MemoryAllocatorDump ''v8''
               [(''allocated_objects_size'', \<lparr>scalarUnit = u, scalarValue = 4096\<rparr>)] []],
     getMemoryAllocatorDumpByFullName = (\<lambda>fullName. None),
     vmRegions = None\<rparr>"

definition exampleClashInTime :: "GlobalMemoryDump list" where
  "exampleClashInTime =
     [exampleGlobalDump 1 LIGHT [(1, exampleObjectsProcess sizeInBytes_smallerIsBetter)],
      exampleGlobalDump 2 LIGHT [(1, exampleObjectsProcess unitlessNumber_smallerIsBetter)]]"

definition exampleClashInGroup :: GlobalMemoryDump where
  "exampleClashInGroup = exampleGlobalDump 1 LIGHT
     [(1, exampleV8Process ''Renderer'' sizeInBytes_smallerIsBetter),
      (2, exampleV8Process ''Renderer'' unitlessNumber_smallerIsBetter)]"

definition exampleMixedTable :: "ScalarNumeric dict dict" where
  "exampleMixedTable =
     [(''browser'',
       [(''process_count'',
           \<lparr>scalarUnit = unitlessNumber_smallerIsBetter, scalarValue = 1\<rparr>),
        (''subsystem:v8'',
           \<lparr>scalarUnit = sizeInBytes_smallerIsBetter, scalarValue = 4096\<rparr>)]),
      (''renderer'',
       [(''process_count'',
           \<lparr>scalarUnit = unitlessNumber_smallerIsBetter, scalarValue = 1\<rparr>),
        (''subsystem:v8'',
           \<lparr>scalarUnit = unitlessNumber_smallerIsBetter, scalarValue = 4096\<rparr>)])]"

definition exampleVmRegions :: VMRegionClassificationNode where
  "exampleVmRegions =
     VMRegionClassificationNode ''root''
       [VMRegionClassificationNode ''Android''
          [VMRegionClassificationNode ''Ashmem'' [] [(''privateDirtyResident'', 64)]]
          [(''proportionalResident'', 3000)],
        VMRegionClassificationNode ''Native heap'' [] [(''proportionalResident'', 1000)]]
       [(''proportionalResident'', 5000)]"

definition exampleVmProcess :: ProcessMemoryDump where
  "exampleVmProcess = \<lparr>
     process_name = Some ''Renderer'', memoryAllocatorDumps = None,
     getMemoryAllocatorDumpByFullName = (\<lambda>fullName. None),
     vmRegions = Some exampleVmRegions\<rparr>"

definition exampleJavaHeap :: MetricSpec where
  "exampleJavaHeap = \<lparr>path = [''Android'', ''Java runtime'', ''Spaces''],
                       byteStat = ''privateDirtyResident''\<rparr>"

definition exampleAshmem :: MetricSpec where
  "exampleAshmem = \<lparr>path = [''Android'', ''Ashmem''], byteStat = ''proportionalResident''\<rparr>"

section \<open>Duration scores\<close>

lemma interpolateCentral_knots:
  "contiguous lo bs hi \<Longrightarrow> c \<le> lo \<Longrightarrow> lo \<le> v \<Longrightarrow> v < hi \<Longrightarrow> binMin over = hi \<Longrightarrow>
   interpolateCentral (c, n) bs over v =
   interpolateKnots ((c, n) # map (\<lambda>b. (binCenter b, binCount b)) bs @ [(hi, binCount over)]) v"
proof (induction bs arbitrary: c n lo)
  case Nil
  then show ?case by simp
next
  case (Cons b bs)
  have lo: "binMin b = lo" and lt: "binMin b < binMax b" and rest: "contiguous (binMax b) bs hi"
    using Cons.prems(1) by simp_all
  have cb: "lo < binCenter b" "binCenter b < binMax b"
    using lo lt by (simp_all add: binCenter_def)
  show ?case
  proof (cases "v < binMax b")
    case True
    show ?thesis
    proof (cases "v < binCenter b")
      case True
      then show ?thesis using \<open>v < binMax b\<close> by simp
    next
      case False
      show ?thesis
      proof (cases bs)
        case Nil
        then have "binMax b = hi" using rest by simp
        then show ?thesis using Nil False \<open>v < binMax b\<close> Cons.prems by simp
      next
        case (Cons b' bs')
        then have "binMin b' = binMax b" "binMin b' < binMax b'" using rest by simp_all
        then have "v < binCenter b'" using \<open>v < binMax b\<close> by (simp add: binCenter_def)
        then show ?thesis using Cons False \<open>v < binMax b\<close> by simp
      qed
    qed
  next
    case False
    then have v: "binMax b \<le> v" by simp
    have "interpolateCentral (binCenter b, binCount b) bs over v =
          interpolateKnots ((binCenter b, binCount b) #
            map (\<lambda>b. (binCenter b, binCount b)) bs @ [(hi, binCount over)]) v"
      using Cons.IH[OF rest _ v Cons.prems(4) Cons.prems(5)] cb by simp
    moreover have "\<not> v < binCenter b" using v cb by simp
    ultimately show ?thesis using False by simp
  qed
qed

lemma lerp_bounds:
  assumes "x0 < x1" "y1 \<le> y0" "x0 \<le> v" "v \<le> x1"
  shows "y1 \<le> lerp (normalize_range v x0 x1) y0 y1" "lerp (normalize_range v x0 x1) y0 y1 \<le> y0"
proof -
  let ?t = "(v - x0) / (x1 - x0)"
  have t: "0 \<le> ?t" "?t \<le> 1" using assms by simp_all
  have eq: "lerp (normalize_range v x0 x1) y0 y1 = y0 + (y1 - y0) * ?t"
    using assms by (simp add: lerp_def normalize_range_def)
  have "(y1 - y0) * 1 \<le> (y1 - y0) * ?t" using t assms by (intro mult_left_mono_neg) simp_all
  then show "y1 \<le> lerp (normalize_range v x0 x1) y0 y1" using eq by simp
  have "(y1 - y0) * ?t \<le> (y1 - y0) * 0" using t assms by (intro mult_left_mono_neg) simp_all
  then show "lerp (normalize_range v x0 x1) y0 y1 \<le> y0" using eq by simp
qed

lemma interpolateKnots_bounds:
  "knots_ok K \<Longrightarrow> K \<noteq> [] \<Longrightarrow> fst (hd K) \<le> v \<Longrightarrow>
   snd (last K) \<le> interpolateKnots K v \<and> interpolateKnots K v \<le> snd (hd K)"
proof (induction K v rule: interpolateKnots.induct)
  case (1 v)
  then show ?case by simp
next
  case (2 x y v)
  then show ?case by simp
next
  case (3 x0 y0 x1 y1 K v)
  have ok: "knots_ok ((x1, y1) # K)" and x: "x0 < x1" and y: "y1 \<le> y0"
    using 3(2) by (auto simp: knots_ok_def)
  have lasty: "snd (last ((x1, y1) # K)) \<le> y1"
    using ok by (cases K rule: rev_cases) (auto simp: knots_ok_def sorted_wrt_append)
  show ?case
  proof (cases "v < x1")
    case True
    then show ?thesis using lerp_bounds[OF x y, of v] 3(4) lasty by auto
  next
    case False
    then have "snd (last ((x1, y1) # K)) \<le> interpolateKnots ((x1, y1) # K) v \<and>
               interpolateKnots ((x1, y1) # K) v \<le> y1"
      using 3(1) ok by simp
    then show ?thesis using False y by auto
  qed
qed

lemma getInterpolatedCountAt_knots:
  assumes "wellFormedTable h" "numericMin h \<le> v" "v < numericMax h"
  shows "getInterpolatedCountAt h v = interpolateKnots (knots h) v"
  using assms interpolateCentral_knots[of "numericMin h" "centralBins h" "numericMax h"
      "binMax (underflowBin h)" v "overflowBin h" "binCount (underflowBin h)"]
  by (simp add: getInterpolatedCountAt_def wellFormedTable_def knots_def)

lemma getInterpolatedCountAt_bounds:
  assumes "wellFormedTable h"
  shows "binCount (overflowBin h) \<le> getInterpolatedCountAt h v"
    and "getInterpolatedCountAt h v \<le> binCount (underflowBin h)"
proof -
  have ok: "knots_ok (knots h)" using assms by (simp add: wellFormedTable_def)
  have ends: "snd (last (knots h)) = binCount (overflowBin h)"
    "snd (hd (knots h)) = binCount (underflowBin h)" "fst (hd (knots h)) = numericMin h"
    using assms by (simp_all add: knots_def wellFormedTable_def)
  have le: "binCount (overflowBin h) \<le> binCount (underflowBin h)"
    using ok by (auto simp: knots_ok_def knots_def sorted_wrt_append)
  have "binCount (overflowBin h) \<le> getInterpolatedCountAt h v \<and>
        getInterpolatedCountAt h v \<le> binCount (underflowBin h)"
  proof (cases "numericMin h \<le> v \<and> v < numericMax h")
    case True
    then show ?thesis
      using getInterpolatedCountAt_knots[OF assms, of v]
        interpolateKnots_bounds[OF ok, of v] ends by (simp add: knots_def)
  next
    case False
    then show ?thesis using le by (auto simp: getInterpolatedCountAt_def)
  qed
  then show "binCount (overflowBin h) \<le> getInterpolatedCountAt h v"
    and "getInterpolatedCountAt h v \<le> binCount (underflowBin h)" by simp_all
qed

lemma wellFormed_RESPONSE: "wellFormedTable RESPONSE_HISTOGRAM"
  by (simp add: wellFormedTable_def RESPONSE_HISTOGRAM_def knots_def knots_ok_def binCenter_def)

lemma wellFormed_FAST_RESPONSE: "wellFormedTable FAST_RESPONSE_HISTOGRAM"
  by (simp add: wellFormedTable_def FAST_RESPONSE_HISTOGRAM_def knots_def knots_ok_def
      binCenter_def)

lemma wellFormed_LOAD: "wellFormedTable LOAD_HISTOGRAM"
  by (simp add: wellFormedTable_def LOAD_HISTOGRAM_def knots_def knots_ok_def binCenter_def)

lemma maxCount_tables:
  "maxCount RESPONSE_HISTOGRAM = 1000" "maxCount FAST_RESPONSE_HISTOGRAM = 1000"
  "maxCount LOAD_HISTOGRAM = 1000"
  by (simp_all add: maxCount_def RESPONSE_HISTOGRAM_def FAST_RESPONSE_HISTOGRAM_def
      LOAD_HISTOGRAM_def)

lemma scoringTables_facts:
  assumes "h \<in> set scoringTables"
  shows "wellFormedTable h" and "maxCount h = 1000"
    and "binCount (underflowBin h) = 1000" and "binCount (overflowBin h) = 0"
proof -
  have h: "h = RESPONSE_HISTOGRAM \<or> h = FAST_RESPONSE_HISTOGRAM \<or> h = LOAD_HISTOGRAM"
    using assms by (auto simp: scoringTables_def)
  show "wellFormedTable h"
    using h wellFormed_RESPONSE wellFormed_FAST_RESPONSE wellFormed_LOAD by auto
  show "maxCount h = 1000" using h maxCount_tables by auto
  show "binCount (underflowBin h) = 1000"
    using h by (auto simp: RESPONSE_HISTOGRAM_def FAST_RESPONSE_HISTOGRAM_def LOAD_HISTOGRAM_def)
  show "binCount (overflowBin h) = 0"
    using h by (auto simp: RESPONSE_HISTOGRAM_def FAST_RESPONSE_HISTOGRAM_def LOAD_HISTOGRAM_def)
qed

lemma scoringTables_range:
  assumes "h \<in> set scoringTables"
  shows "numericMin h < numericMax h"
  using assms
  by (auto simp: scoringTables_def RESPONSE_HISTOGRAM_def FAST_RESPONSE_HISTOGRAM_def
      LOAD_HISTOGRAM_def)

text \<open>
  Claim C3: for each of the three scoring tables and every duration \<open>d\<close>, the duration
  score lies in the closed interval from 0 to 1; below the minimum of the table it is the
  count of the underflow bin over \<open>maxCount\<close>, and from the maximum of the table on it is
  the count of the overflow bin over \<open>maxCount\<close>.
\<close>

theorem duration_score_in_unit_interval:
  assumes "h \<in> set scoringTables"
  shows "0 \<le> computeDurationResponsiveness h d \<and> computeDurationResponsiveness h d \<le> 1 \<and>
         (d < numericMin h \<longrightarrow>
            computeDurationResponsiveness h d = binCount (underflowBin h) / maxCount h) \<and>
         (numericMax h \<le> d \<longrightarrow>
            computeDurationResponsiveness h d = binCount (overflowBin h) / maxCount h)"
proof -
  note f = scoringTables_facts[OF assms]
  have "0 \<le> getInterpolatedCountAt h d" "getInterpolatedCountAt h d \<le> 1000"
    using getInterpolatedCountAt_bounds[OF f(1), of d] f(3,4) by simp_all
  then have "0 \<le> computeDurationResponsiveness h d \<and> computeDurationResponsiveness h d \<le> 1"
    using f(2) by (simp add: computeDurationResponsiveness_def)
  moreover have "d < numericMin h \<longrightarrow>
      computeDurationResponsiveness h d = binCount (underflowBin h) / maxCount h"
    by (simp add: computeDurationResponsiveness_def getInterpolatedCountAt_def)
  moreover have "numericMax h \<le> d \<longrightarrow>
      computeDurationResponsiveness h d = binCount (overflowBin h) / maxCount h"
    using scoringTables_range[OF assms]
    by (simp add: computeDurationResponsiveness_def getInterpolatedCountAt_def)
  ultimately show ?thesis by blast
qed

text \<open>An instance on the LOAD table, beyond both ends: 70 s scores 0 and 0.5 s scores 1.\<close>

theorem duration_score_in_unit_interval_witness:
  "LOAD_HISTOGRAM \<in> set scoringTables \<and>
   0 \<le> computeDurationResponsiveness LOAD_HISTOGRAM 70000 \<and>
   computeDurationResponsiveness LOAD_HISTOGRAM 70000 \<le> 1 \<and>
   numericMax LOAD_HISTOGRAM \<le> 70000 \<and>
   computeDurationResponsiveness LOAD_HISTOGRAM 70000 = 0 \<and>
   (500::real) < numericMin LOAD_HISTOGRAM \<and>
   computeDurationResponsiveness LOAD_HISTOGRAM 500 = 1"
proof -
  have h: "LOAD_HISTOGRAM \<in> set scoringTables" by (simp add: scoringTables_def)
  have m: "numericMax LOAD_HISTOGRAM = 60000" "numericMin LOAD_HISTOGRAM = 1000"
    "binCount (overflowBin LOAD_HISTOGRAM) = 0" "binCount (underflowBin LOAD_HISTOGRAM) = 1000"
    by (simp_all add: LOAD_HISTOGRAM_def)
  show ?thesis
    using h m maxCount_tables(3) duration_score_in_unit_interval[OF h, of 70000]
      duration_score_in_unit_interval[OF h, of 500]
    by simp
qed

section \<open>Rounding to doubles\<close>





























section \<open>Animation scores\<close>










lemma computeAnimationThroughput_noFrames:
  "noFrames ae \<Longrightarrow>
   computeAnimationThroughput ae = Inl (AnimationMissingFrameEvents (stableId ae))"
  by (auto simp: noFrames_def computeAnimationThroughput_def)

lemma computeAnimationSmoothness_noFrames:
  "noFrames ae \<Longrightarrow>
   computeAnimationSmoothness L ae = Inl (AnimationMissingFrameEvents (stableId ae))"
  by (auto simp: noFrames_def computeAnimationSmoothness_def)

lemma computeResponsiveness_noFrames:
  "expectationKind ae = AnimationExpectation \<Longrightarrow> noFrames ae \<Longrightarrow>
   computeResponsiveness L ae dv = Inl (AnimationMissingFrameEvents (stableId ae))"
  by (simp add: computeResponsiveness_def scoreOfStage_def computeAnimationResponsiveness_def
      computeAnimationThroughput_noFrames)

lemma scoreExpectations_aborts:
  assumes "ue \<in> set ues" and "scoreable ue"
    and "\<And>dv. \<exists>e. computeResponsiveness L ue dv = Inl e"
  shows "\<exists>e. scoreExpectations L ues st = Inl e"
  using assms(1)
proof (induction ues arbitrary: st)
  case Nil
  then show ?case by simp
next
  case (Cons u us)
  obtain scores dv where st: "st = (scores, dv)" by (cases st)
  show ?case
  proof (cases "u = ue")
    case True
    then show ?thesis using assms(2) assms(3)[of dv] st by auto
  next
    case False
    then have "ue \<in> set us" using Cons.prems by simp
    then show ?thesis using Cons.IH st by (auto split: sum.splits)
  qed
qed

text \<open>
  Claim C7: for an Animation expectation whose frame events are absent or empty, both
  the throughput and the smoothness computation raise the error that names the stable
  identifier of the expectation, so does its responsiveness score, and the metric of any
  model that contains the expectation ends in an error: it returns no value list.
\<close>

theorem missing_frame_events_abort:
  assumes "expectationKind ae = AnimationExpectation"
    and "frameEvents ae = None \<or> frameEvents ae = Some []"
  shows "computeAnimationThroughput ae = Inl (AnimationMissingFrameEvents (stableId ae)) \<and>
         computeAnimationSmoothness L ae = Inl (AnimationMissingFrameEvents (stableId ae)) \<and>
         computeResponsiveness L ae diagnosticValues =
           Inl (AnimationMissingFrameEvents (stableId ae)) \<and>
         (ae \<in> set (expectations model) \<longrightarrow>
            (\<exists>e. responsivenessMetric L valueList model = Inl e))"
proof -
  have nf: "noFrames ae" using assms(2) by (simp add: noFrames_def)
  have sc: "scoreable ae" using assms(1) by simp
  have "\<exists>e. scoreExpectations L (expectations model) ([], []) = Inl e"
    if "ae \<in> set (expectations model)"
    using scoreExpectations_aborts[OF that sc] computeResponsiveness_noFrames[OF assms(1) nf]
    by simp
  then have "ae \<in> set (expectations model) \<longrightarrow>
      (\<exists>e. responsivenessMetric L valueList model = Inl e)"
    by (auto simp: responsivenessMetric_def)
  then show ?thesis
    using computeAnimationThroughput_noFrames[OF nf] computeAnimationSmoothness_noFrames[OF nf]
      computeResponsiveness_noFrames[OF assms(1) nf] by simp
qed

text \<open>A model of a Load expectation followed by an animation with an empty frame list.\<close>

theorem missing_frame_events_abort_witness:
  "expectationKind exampleNoFrames = AnimationExpectation \<and>
   frameEvents exampleNoFrames = Some [] \<and>
   exampleNoFrames \<in> set (expectations (exampleModel [exampleLoad 2000, exampleNoFrames])) \<and>
   computeAnimationThroughput exampleNoFrames
     = Inl (AnimationMissingFrameEvents ''UserModel.0'') \<and>
   computeAnimationSmoothness exampleLib exampleNoFrames
     = Inl (AnimationMissingFrameEvents ''UserModel.0'') \<and>
   (\<exists>e. responsivenessMetric exampleLib []
          (exampleModel [exampleLoad 2000, exampleNoFrames]) = Inl e)"
proof -
  have k: "expectationKind exampleNoFrames = AnimationExpectation"
    by (simp add: exampleNoFrames_def exampleAnimation_def)
  have f: "frameEvents exampleNoFrames = None \<or> frameEvents exampleNoFrames = Some []"
    by (simp add: exampleNoFrames_def)
  have m: "exampleNoFrames \<in> set (expectations (exampleModel [exampleLoad 2000, exampleNoFrames]))"
    by (simp add: exampleModel_def)
  show ?thesis
    using k m missing_frame_events_abort[OF k f, of exampleLib "[]"
        "exampleModel [exampleLoad 2000, exampleNoFrames]" "[]"]
    by (simp add: exampleNoFrames_def exampleAnimation_def)
qed

section \<open>The responsiveness metric\<close>

lemma scoreExpectations_filter:
  "scoreExpectations L (filter scoreable ues) st = scoreExpectations L ues st"
proof (induction ues arbitrary: st)
  case Nil
  then show ?case by simp
next
  case (Cons u us)
  obtain scores dv where st: "st = (scores, dv)" by (cases st)
  show ?case using Cons.IH st by (auto split: sum.splits)
qed

lemma computeResponsiveness_Idle:
  "expectationKind ue = IdleExpectation \<Longrightarrow>
   computeResponsiveness L ue dv = Inl ResponsivenessNotDefinedForIdle"
  by (simp add: computeResponsiveness_def scoreOfStage_def)

lemma computeResponsiveness_values:
  assumes "computeResponsiveness L ue dv = Inr (score, dv')"
  shows "\<exists>new. dv' = dv @ new \<and>
           (\<forall>v\<in>set new. valueGroupingKeys v = Some (groupingKeysForUserExpectation ue))"
  using assms
  by (auto simp: computeResponsiveness_def scoreOfStage_def computeAnimationResponsiveness_def
      addValue_def Let_def split: ExpectationKind.splits sum.splits option.splits if_splits)

lemma scoreExpectations_values:
  assumes "scoreExpectations L ues (scores, dv) = Inr (scores', dv')"
  shows "length scores' = length scores + length (filter scoreable ues) \<and>
         (\<exists>new. dv' = dv @ new \<and>
            (\<forall>v\<in>set new. \<exists>ue\<in>set ues. scoreable ue \<and>
               valueGroupingKeys v = Some (groupingKeysForUserExpectation ue)))"
  using assms
proof (induction ues arbitrary: scores dv)
  case Nil
  then show ?case by simp
next
  case (Cons u us)
  show ?case
  proof (cases "expectationKind u = IdleExpectation")
    case True
    then have "scoreExpectations L us (scores, dv) = Inr (scores', dv')"
      using Cons.prems by simp
    from Cons.IH[OF this] True show ?thesis by auto
  next
    case False
    then obtain score dv1 where c: "computeResponsiveness L u dv = Inr (score, dv1)"
      and r: "scoreExpectations L us (scores @ [score], dv1) = Inr (scores', dv')"
      using Cons.prems by (auto split: sum.splits)
    obtain new1 where n1: "dv1 = dv @ new1"
      "\<forall>v\<in>set new1. valueGroupingKeys v = Some (groupingKeysForUserExpectation u)"
      using computeResponsiveness_values[OF c] by blast
    obtain new2 where n2: "dv' = dv1 @ new2"
      "\<forall>v\<in>set new2. \<exists>ue\<in>set us. scoreable ue \<and>
          valueGroupingKeys v = Some (groupingKeysForUserExpectation ue)"
      and len: "length scores' = length (scores @ [score]) + length (filter scoreable us)"
      using Cons.IH[OF r] by blast
    have "dv' = dv @ (new1 @ new2)" using n1 n2 by simp
    moreover have "\<forall>v\<in>set (new1 @ new2). \<exists>ue\<in>set (u # us). scoreable ue \<and>
          valueGroupingKeys v = Some (groupingKeysForUserExpectation ue)"
      using n1(2) n2(2) False by auto
    ultimately show ?thesis using len False by auto
  qed
qed

text \<open>
  Claim C8: passing an Idle expectation to \<open>computeResponsiveness\<close> is an error; the
  metric of a model is the metric of the model without its Idle expectations; and when
  the expectations are scored, there is one score per non-Idle expectation and every
  value emitted for an expectation carries the grouping keys of a non-Idle one.
\<close>

theorem idle_is_never_scored:
  "(expectationKind ue = IdleExpectation \<longrightarrow>
      computeResponsiveness L ue diagnosticValues = Inl ResponsivenessNotDefinedForIdle) \<and>
   responsivenessMetric L valueList model =
     responsivenessMetric L valueList
       (model\<lparr>expectations :=
          filter (\<lambda>ue. expectationKind ue \<noteq> IdleExpectation) (expectations model)\<rparr>) \<and>
   (scoreExpectations L (expectations model) ([], []) = Inr (scores, diagnostics) \<longrightarrow>
      length scores =
        length (filter (\<lambda>ue. expectationKind ue \<noteq> IdleExpectation) (expectations model)) \<and>
      (\<forall>v\<in>set diagnostics. \<exists>ue\<in>set (expectations model).
         expectationKind ue \<noteq> IdleExpectation \<and>
         valueGroupingKeys v = Some (groupingKeysForUserExpectation ue)))"
proof -
  have a: "expectationKind ue = IdleExpectation \<longrightarrow>
      computeResponsiveness L ue diagnosticValues = Inl ResponsivenessNotDefinedForIdle"
    by (simp add: computeResponsiveness_Idle)
  have b: "responsivenessMetric L valueList model =
     responsivenessMetric L valueList
       (model\<lparr>expectations :=
          filter (\<lambda>ue. expectationKind ue \<noteq> IdleExpectation) (expectations model)\<rparr>)"
    using scoreExpectations_filter[of L "expectations model" "([], [])"]
    by (auto simp: responsivenessMetric_def split: sum.splits option.splits)
  have c: "length scores =
        length (filter (\<lambda>ue. expectationKind ue \<noteq> IdleExpectation) (expectations model)) \<and>
      (\<forall>v\<in>set diagnostics. \<exists>ue\<in>set (expectations model).
         expectationKind ue \<noteq> IdleExpectation \<and>
         valueGroupingKeys v = Some (groupingKeysForUserExpectation ue))"
    if "scoreExpectations L (expectations model) ([], []) = Inr (scores, diagnostics)"
    using scoreExpectations_values[OF that] by simp
  show ?thesis using a b c by blast
qed

lemma weightedMean_Nil: "weightedMean [] w = None"
  by (simp add: weightedMean_def)

lemma sum_list_pos_real:
  fixes xs :: "real list"
  shows "xs \<noteq> [] \<Longrightarrow> \<forall>x\<in>set xs. 0 < x \<Longrightarrow> 0 < sum_list xs"
proof (induction xs)
  case Nil
  then show ?case by simp
next
  case (Cons x xs)
  have "0 \<le> sum_list xs" using Cons.prems by (intro sum_list_nonneg) (simp add: less_imp_le)
  then show ?case using Cons.prems by simp
qed

lemma weightedMean_defined:
  assumes "\<forall>i s. 0 < w i s" and "ary \<noteq> []"
  shows "\<exists>m. weightedMean ary w = Some m"
proof -
  let ?ws = "map (\<lambda>(i, v). w i v) (enumerate 0 ary)"
  have "?ws \<noteq> []" using assms(2) by (cases ary) simp_all
  moreover have "\<forall>x\<in>set ?ws. 0 < x" using assms(1) by auto
  ultimately have "0 < sum_list ?ws" by (rule sum_list_pos_real)
  then show ?thesis by (simp add: weightedMean_def Let_def)
qed

lemma exampleLoad_score:
  "scoreExpectations exampleLib [exampleIdle, exampleLoad 6900] ([], []) =
   Inr ([59 / 80],
        [NumericValue ''http://example.com/'' ''responsiveness''
           \<lparr>scalarUnit = UNIT, scalarValue = 59 / 80\<rparr>
           (Some ''Mean Opinion Score of Time to First ContentfulPaint'')
           (Some (groupingKeysForUserExpectation (exampleLoad 6900))) None])"
  by (simp add: exampleIdle_def exampleLoad_def computeResponsiveness_def scoreOfStage_def
      addValue_def computeDurationResponsiveness_def maxCount_def getInterpolatedCountAt_def
      LOAD_HISTOGRAM_def binCenter_def lerp_def normalize_range_def)

lemma exampleModel_expectations: "expectations (exampleModel ues) = ues"
  by (simp add: exampleModel_def)

text \<open>A model of an Idle and a Load expectation of 6900 ms.\<close>

theorem idle_is_never_scored_witness:
  "expectationKind exampleIdle = IdleExpectation \<and>
   computeResponsiveness exampleLib exampleIdle [] = Inl ResponsivenessNotDefinedForIdle \<and>
   responsivenessMetric exampleLib [] (exampleModel [exampleIdle, exampleLoad 6900]) =
     responsivenessMetric exampleLib [] (exampleModel [exampleLoad 6900]) \<and>
   (\<exists>v. scoreExpectations exampleLib
          (expectations (exampleModel [exampleIdle, exampleLoad 6900])) ([], [])
        = Inr ([59 / 80], [v]) \<and>
        valueGroupingKeys v = Some (groupingKeysForUserExpectation (exampleLoad 6900)))"
proof -
  have k: "expectationKind exampleIdle = IdleExpectation"
    "expectationKind (exampleLoad 6900) \<noteq> IdleExpectation"
    by (simp_all add: exampleIdle_def exampleLoad_def)
  have u: "exampleModel [exampleIdle, exampleLoad 6900]
             \<lparr>expectations := [exampleLoad 6900]\<rparr> = exampleModel [exampleLoad 6900]"
    by (simp add: exampleModel_def)
  show ?thesis
    using k exampleLoad_score
      idle_is_never_scored[where ue = exampleIdle and L = exampleLib
        and diagnosticValues = "[]" and valueList = "[]"
        and model = "exampleModel [exampleIdle, exampleLoad 6900]"]
    by (simp add: exampleModel_expectations u)
qed

text \<open>
  Claim C9 says that a model with a non-Idle expectation always gets exactly one overall
  value. It does not when a scorer fails: the model of \<open>exampleNoFrames\<close> alone has one
  non-Idle expectation, and the metric raises the error of the missing frame events.
\<close>

theorem overall_value_not_always_emitted:
  "expectations (exampleModel [exampleNoFrames]) = [exampleNoFrames] \<and>
   expectationKind exampleNoFrames \<noteq> IdleExpectation \<and>
   responsivenessMetric exampleLib [] (exampleModel [exampleNoFrames]) =
     Inl (AnimationMissingFrameEvents ''UserModel.0'')"
  by (simp add: exampleModel_def exampleNoFrames_def exampleAnimation_def
      responsivenessMetric_def computeResponsiveness_def scoreOfStage_def
      computeAnimationResponsiveness_def computeAnimationThroughput_def)

text \<open>
  Claim C9, amended: if every expectation of the model is Idle, the metric returns the
  value list as it was and raises no error. If the model has a non-Idle expectation, the
  scoring of the expectations succeeds and the blend weights are positive, the metric
  appends exactly one value, named "responsiveness", to the value list. If the scoring
  of the expectations raises an error, the metric raises that error.
\<close>

theorem overall_value_emission:
  "((\<forall>ue\<in>set (expectations model). expectationKind ue = IdleExpectation) \<longrightarrow>
      responsivenessMetric L valueList model = Inr valueList) \<and>
   ((\<forall>i s. 0 < perceptualBlend L i s) \<and>
    (\<exists>ue\<in>set (expectations model). expectationKind ue \<noteq> IdleExpectation) \<and>
    scoreExpectations L (expectations model) ([], []) = Inr (scores, diagnostics) \<longrightarrow>
      (\<exists>overallScore. responsivenessMetric L valueList model =
         Inr (valueList @
           [NumericValue (canonicalUrl model) ''responsiveness''
              \<lparr>scalarUnit = UNIT, scalarValue = overallScore\<rparr>
              (Some ''Perceptual blend of responsiveness of RAIL user expectations'')
              None (Some diagnostics)]))) \<and>
   (scoreExpectations L (expectations model) ([], []) = Inl e \<longrightarrow>
      responsivenessMetric L valueList model = Inl e)"
proof -
  have a: "responsivenessMetric L valueList model = Inr valueList"
    if "\<forall>ue\<in>set (expectations model). expectationKind ue = IdleExpectation"
  proof -
    have "filter scoreable (expectations model) = []"
      using that by (auto simp: filter_empty_conv)
    then have "scoreExpectations L (expectations model) ([], []) = Inr ([], [])"
      using scoreExpectations_filter[of L "expectations model" "([], [])"] by simp
    then show ?thesis by (simp add: responsivenessMetric_def weightedMean_Nil)
  qed
  have b: "\<exists>overallScore. responsivenessMetric L valueList model =
         Inr (valueList @
           [NumericValue (canonicalUrl model) ''responsiveness''
              \<lparr>scalarUnit = UNIT, scalarValue = overallScore\<rparr>
              (Some ''Perceptual blend of responsiveness of RAIL user expectations'')
              None (Some diagnostics)])"
    if w: "\<forall>i s. 0 < perceptualBlend L i s"
      and ne: "\<exists>ue\<in>set (expectations model). expectationKind ue \<noteq> IdleExpectation"
      and sc: "scoreExpectations L (expectations model) ([], []) = Inr (scores, diagnostics)"
  proof -
    have "filter scoreable (expectations model) \<noteq> []"
      using ne by (auto simp: filter_empty_conv)
    then have "scores \<noteq> []" using scoreExpectations_values[OF sc] by auto
    then obtain m where "weightedMean scores (perceptualBlend L) = Some m"
      using weightedMean_defined[OF w] by blast
    then show ?thesis using sc by (simp add: responsivenessMetric_def addValue_def)
  qed
  have c: "scoreExpectations L (expectations model) ([], []) = Inl e \<longrightarrow>
      responsivenessMetric L valueList model = Inl e"
    by (simp add: responsivenessMetric_def)
  show ?thesis using a b c by blast
qed

text \<open>The model of an Idle expectation alone, and the model of an Idle and a Load
  expectation.\<close>

theorem overall_value_emission_witness:
  "expectations (exampleModel [exampleIdle]) = [exampleIdle] \<and>
   expectationKind exampleIdle = IdleExpectation \<and>
   responsivenessMetric exampleLib [] (exampleModel [exampleIdle]) = Inr [] \<and>
   (\<forall>i s. 0 < perceptualBlend exampleLib i s) \<and>
   expectations (exampleModel [exampleIdle, exampleLoad 6900])
     = [exampleIdle, exampleLoad 6900] \<and>
   expectationKind (exampleLoad 6900) \<noteq> IdleExpectation \<and>
   (\<exists>scores diagnostics overallScore.
      scoreExpectations exampleLib
        (expectations (exampleModel [exampleIdle, exampleLoad 6900])) ([], [])
        = Inr (scores, diagnostics) \<and>
      responsivenessMetric exampleLib [] (exampleModel [exampleIdle, exampleLoad 6900]) =
        Inr [NumericValue ''http://example.com/'' ''responsiveness''
               \<lparr>scalarUnit = UNIT, scalarValue = overallScore\<rparr>
               (Some ''Perceptual blend of responsiveness of RAIL user expectations'')
               None (Some diagnostics)])"
proof -
  have k: "expectationKind exampleIdle = IdleExpectation"
    "expectationKind (exampleLoad 6900) \<noteq> IdleExpectation"
    by (simp_all add: exampleIdle_def exampleLoad_def)
  have w: "\<forall>i s. 0 < perceptualBlend exampleLib i s" by (simp add: exampleLib_def)
  have c: "canonicalUrl (exampleModel ues) = ''http://example.com/''" for ues
    by (simp add: exampleModel_def)
  have a: "responsivenessMetric exampleLib [] (exampleModel [exampleIdle]) = Inr []"
    using k overall_value_emission[where model = "exampleModel [exampleIdle]" and L = exampleLib
        and valueList = "[]"]
    by (simp add: exampleModel_expectations)
  have b: "\<exists>overallScore.
      responsivenessMetric exampleLib [] (exampleModel [exampleIdle, exampleLoad 6900]) =
        Inr [NumericValue ''http://example.com/'' ''responsiveness''
               \<lparr>scalarUnit = UNIT, scalarValue = overallScore\<rparr>
               (Some ''Perceptual blend of responsiveness of RAIL user expectations'')
               None (Some [NumericValue ''http://example.com/'' ''responsiveness''
           \<lparr>scalarUnit = UNIT, scalarValue = 59 / 80\<rparr>
           (Some ''Mean Opinion Score of Time to First ContentfulPaint'')
           (Some (groupingKeysForUserExpectation (exampleLoad 6900))) None])]"
    using k w exampleLoad_score
      overall_value_emission[where model = "exampleModel [exampleIdle, exampleLoad 6900]"
        and L = exampleLib and valueList = "[]" and scores = "[59 / 80]"
        and diagnostics = "[NumericValue ''http://example.com/'' ''responsiveness''
           \<lparr>scalarUnit = UNIT, scalarValue = 59 / 80\<rparr>
           (Some ''Mean Opinion Score of Time to First ContentfulPaint'')
           (Some (groupingKeysForUserExpectation (exampleLoad 6900))) None]"]
    by (simp add: exampleModel_expectations c)
  show ?thesis
    using k w a b exampleLoad_score by (auto simp: exampleModel_expectations)
qed

section \<open>Browser names\<close>

lemma update_fresh_key:
  "k \<notin> set (map fst m) \<Longrightarrow> AList.update k v m = m @ [(k, v)]"
  by (induction m) auto

lemma findUniqueKey_suffix:
  "uniqueKey = key @ numberToString i \<Longrightarrow> nextIndex = Suc i \<Longrightarrow>
   \<exists>n\<ge>i. findUniqueKey m key uniqueKey nextIndex = key @ numberToString n \<and>
          key @ numberToString n \<notin> set (map fst m) \<and>
          (\<forall>j. i \<le> j \<and> j < n \<longrightarrow> key @ numberToString j \<in> set (map fst m))"
proof (induction m key uniqueKey nextIndex arbitrary: i rule: findUniqueKey.induct)
  case (1 m key uniqueKey nextIndex)
  show ?case
  proof (cases "uniqueKey \<in> set (map fst m)")
    case True
    obtain n where n: "Suc i \<le> n"
      "findUniqueKey m key (key @ numberToString nextIndex) (Suc nextIndex)
         = key @ numberToString n"
      "key @ numberToString n \<notin> set (map fst m)"
      "\<forall>j. Suc i \<le> j \<and> j < n \<longrightarrow> key @ numberToString j \<in> set (map fst m)"
      using "1.IH"[OF True, of "Suc i"] "1.prems" by auto
    have "findUniqueKey m key uniqueKey nextIndex = key @ numberToString n"
      using True n(2) by (subst findUniqueKey.simps) simp
    moreover have "\<forall>j. i \<le> j \<and> j < n \<longrightarrow> key @ numberToString j \<in> set (map fst m)"
    proof (intro allI impI)
      fix j assume j: "i \<le> j \<and> j < n"
      show "key @ numberToString j \<in> set (map fst m)"
      proof (cases "j = i")
        case True
        then show ?thesis using \<open>uniqueKey \<in> set (map fst m)\<close> "1.prems" by simp
      next
        case False
        then show ?thesis using j n(4) by simp
      qed
    qed
    ultimately show ?thesis using n(1,3) by (intro exI[of _ n]) simp
  next
    case False
    then have "findUniqueKey m key uniqueKey nextIndex = key @ numberToString i"
      using "1.prems" by (subst findUniqueKey.simps) simp
    then show ?thesis using False "1.prems" by (intro exI[of _ i]) auto
  qed
qed

lemma makeKeyUniqueAndSet_fresh:
  assumes "key \<notin> set (map fst m)"
  shows "makeKeyUniqueAndSet m key v = m @ [(key, v)]"
proof -
  have "findUniqueKey m key key 2 = key"
    using assms by (subst findUniqueKey.simps) simp
  then show ?thesis using assms by (simp add: makeKeyUniqueAndSet_def update_fresh_key)
qed

lemma makeKeyUniqueAndSet_used:
  assumes "key \<in> set (map fst m)"
  shows "\<exists>n\<ge>2. key @ numberToString n \<notin> set (map fst m) \<and>
           (\<forall>j. 2 \<le> j \<and> j < n \<longrightarrow> key @ numberToString j \<in> set (map fst m)) \<and>
           makeKeyUniqueAndSet m key v = m @ [(key @ numberToString n, v)]"
proof -
  have "findUniqueKey m key key 2 = findUniqueKey m key (key @ numberToString 2) (Suc 2)"
    using assms by (subst findUniqueKey.simps) (simp add: numeral_3_eq_3)
  moreover obtain n where n: "2 \<le> n"
    "findUniqueKey m key (key @ numberToString 2) (Suc 2) = key @ numberToString n"
    "key @ numberToString n \<notin> set (map fst m)"
    "\<forall>j. 2 \<le> j \<and> j < n \<longrightarrow> key @ numberToString j \<in> set (map fst m)"
    using findUniqueKey_suffix[OF refl refl, of 2 m key] by auto
  ultimately have "makeKeyUniqueAndSet m key v = m @ [(key @ numberToString n, v)]"
    using n(3) by (simp add: makeKeyUniqueAndSet_def update_fresh_key)
  then show ?thesis using n by (intro exI[of _ n]) simp
qed

lemma makeKeyUniqueAndSet_second:
  "makeKeyUniqueAndSet [(key, a)] key b = [(key, a), (key @ ''2'', b)]"
proof -
  have "findUniqueKey [(key, a)] key key 2 = key @ ''2''"
    by (simp add: findUniqueKey.simps[of _ key] numberToString.simps[of 2])
  then show ?thesis by (simp add: makeKeyUniqueAndSet_def)
qed

lemma claimGlobalDumps_fresh:
  "distinct (map dumpId gs) \<Longrightarrow> \<forall>g\<in>set gs. w (dumpId g) = None \<Longrightarrow>
   \<exists>w'. claimGlobalDumps helper gs w = Inr w' \<and>
        (\<forall>i. w' i = (if i \<in> dumpId ` set gs then Some (pid helper) else w i))"
proof (induction gs arbitrary: w)
  case Nil
  then show ?case by simp
next
  case (Cons g gs)
  let ?w = "w(dumpId g \<mapsto> pid helper)"
  have "distinct (map dumpId gs)" using Cons.prems by simp
  moreover have "\<forall>g'\<in>set gs. ?w (dumpId g') = None"
  proof
    fix g' assume g': "g' \<in> set gs"
    then have "dumpId g' \<in> dumpId ` set gs" by (rule imageI)
    moreover have "dumpId g \<notin> dumpId ` set gs" using Cons.prems(1) by simp
    ultimately have "dumpId g' \<noteq> dumpId g" by metis
    then show "?w (dumpId g') = None" using Cons.prems(2) g' by simp
  qed
  ultimately have "distinct (map dumpId gs)" "\<forall>g'\<in>set gs. ?w (dumpId g') = None"
    by simp_all
  from Cons.IH[OF this] obtain w' where w': "claimGlobalDumps helper gs ?w = Inr w'"
    "\<forall>i. w' i = (if i \<in> dumpId ` set gs then Some (pid helper) else ?w i)" by blast
  have "claimGlobalDumps helper (g # gs) w = Inr w'" using Cons.prems w'(1) by simp
  moreover have "\<forall>i. w' i = (if i \<in> dumpId ` set (g # gs) then Some (pid helper) else w i)"
    using w'(2) by auto
  ultimately show ?case by blast
qed

text \<open>
  Claim C5: \<open>makeKeyUniqueAndSet\<close> enters a key that is not in the map as it is; for a key
  that is in the map it appends the smallest index \<open>n \<ge> 2\<close> such that the key followed by
  \<open>n\<close> is not in the map, and enters the value under that key, after the entries that
  are there; the keys of the map stay distinct. In particular two browsers of the same name, with distinct global dumps that
  cover the dumps of the model, are split into the groups \<open>name\<close> and \<open>name2\<close>, the
  first browser first.
\<close>

theorem unique_browser_names:
  "(key \<notin> set (map fst m) \<longrightarrow> makeKeyUniqueAndSet m key v = m @ [(key, v)]) \<and>
   (key \<in> set (map fst m) \<longrightarrow>
      (\<exists>n\<ge>2. key @ numberToString n \<notin> set (map fst m) \<and>
         (\<forall>j. 2 \<le> j \<and> j < n \<longrightarrow> key @ numberToString j \<in> set (map fst m)) \<and>
         makeKeyUniqueAndSet m key v = m @ [(key @ numberToString n, v)])) \<and>
   (distinct (map fst m) \<longrightarrow> distinct (map fst (makeKeyUniqueAndSet m key v))) \<and>
   (browserHelpers model = Some [helper1, helper2] \<and>
    browserName helper1 = name \<and> browserName helper2 = name \<and>
    distinct (map dumpId
      (processGlobalMemoryDumps helper1 @ processGlobalMemoryDumps helper2)) \<and>
    dumpId ` set (globalMemoryDumps model) \<subseteq>
      dumpId ` set (processGlobalMemoryDumps helper1 @ processGlobalMemoryDumps helper2) \<longrightarrow>
      splitGlobalDumpsByBrowserName model =
        Inr [(name, processGlobalMemoryDumps helper1),
             (name @ ''2'', processGlobalMemoryDumps helper2)])"
proof -
  have c: "splitGlobalDumpsByBrowserName model =
        Inr [(name, processGlobalMemoryDumps helper1),
             (name @ ''2'', processGlobalMemoryDumps helper2)]"
    if h: "browserHelpers model = Some [helper1, helper2]"
      and n: "browserName helper1 = name" "browserName helper2 = name"
      and d: "distinct (map dumpId
        (processGlobalMemoryDumps helper1 @ processGlobalMemoryDumps helper2))"
      and u: "dumpId ` set (globalMemoryDumps model) \<subseteq>
        dumpId ` set (processGlobalMemoryDumps helper1 @ processGlobalMemoryDumps helper2)"
  proof -
    let ?g1 = "processGlobalMemoryDumps helper1" and ?g2 = "processGlobalMemoryDumps helper2"
    obtain w1 where w1: "claimGlobalDumps helper1 ?g1 Map.empty = Inr w1"
      "\<forall>i. w1 i = (if i \<in> dumpId ` set ?g1 then Some (pid helper1) else None)"
      using claimGlobalDumps_fresh[of ?g1 Map.empty helper1] d by auto
    have "\<forall>g\<in>set ?g2. w1 (dumpId g) = None" using w1(2) d by auto
    then obtain w2 where w2: "claimGlobalDumps helper2 ?g2 w1 = Inr w2"
      "\<forall>i. w2 i = (if i \<in> dumpId ` set ?g2 then Some (pid helper2) else w1 i)"
      using claimGlobalDumps_fresh[of ?g2 w1 helper2] d by auto
    have cl: "classifyBrowsers [helper1, helper2] ([], Map.empty) =
          Inr ([(name, ?g1), (name @ ''2'', ?g2)], w2)"
      using w1(1) w2(1) n
      by (simp add: makeKeyUniqueAndSet_fresh makeKeyUniqueAndSet_second)
    have "w2 (dumpId g) \<noteq> None" if "g \<in> set (globalMemoryDumps model)" for g
    proof -
      have "dumpId g \<in> dumpId ` set ?g1 \<union> dumpId ` set ?g2" using u that by auto
      then show ?thesis using w1(2) w2(2) by auto
    qed
    then have "filter (\<lambda>g. w2 (dumpId g) = None) (globalMemoryDumps model) = []"
      by (auto simp: filter_empty_conv)
    then show ?thesis using h cl by (simp add: splitGlobalDumpsByBrowserName_def)
  qed
  have d: "distinct (map fst (makeKeyUniqueAndSet m key v))" if "distinct (map fst m)"
  proof (cases "key \<in> set (map fst m)")
    case False
    then show ?thesis using that makeKeyUniqueAndSet_fresh[of key m v] by simp
  next
    case True
    then obtain n where "key @ numberToString n \<notin> set (map fst m)"
      "makeKeyUniqueAndSet m key v = m @ [(key @ numberToString n, v)]"
      using makeKeyUniqueAndSet_used[of key m v] by blast
    then show ?thesis using that by simp
  qed
  show ?thesis
    using makeKeyUniqueAndSet_fresh[of key m v] makeKeyUniqueAndSet_used[of key m v] c d
    by blast
qed

text \<open>Two browsers named "chrome", with one global dump each.\<close>

theorem unique_browser_names_witness:
  "''key'' \<notin> set (map fst ([] :: nat dict)) \<and>
   makeKeyUniqueAndSet [] ''key'' (1::nat) = [(''key'', 1)] \<and>
   ''key'' \<in> set (map fst [(''key'', 1::nat)]) \<and>
   (\<exists>n\<ge>2. makeKeyUniqueAndSet [(''key'', 1::nat)] ''key'' 2
            = [(''key'', 1), (''key'' @ numberToString n, 2)]) \<and>
   browserHelpers exampleTwoBrowsers =
     Some [exampleBrowser 10 [exampleGlobalDump 1 LIGHT []],
           exampleBrowser 20 [exampleGlobalDump 2 LIGHT []]] \<and>
   splitGlobalDumpsByBrowserName exampleTwoBrowsers =
     Inr [(''chrome'', [exampleGlobalDump 1 LIGHT []]),
          (''chrome2'', [exampleGlobalDump 2 LIGHT []])]"
proof -
  have a: "makeKeyUniqueAndSet [] ''key'' (1::nat) = [(''key'', 1)]"
    using unique_browser_names[where key = "''key''" and m = "[] :: nat dict" and v = 1]
    by simp
  have b: "\<exists>n\<ge>2. makeKeyUniqueAndSet [(''key'', 1::nat)] ''key'' 2
            = [(''key'', 1), (''key'' @ numberToString n, 2)]"
  proof -
    have k: "''key'' \<in> set (map fst [(''key'', 1::nat)])" by simp
    obtain n where "2 \<le> n" "makeKeyUniqueAndSet [(''key'', 1::nat)] ''key'' 2
            = [(''key'', 1)] @ [(''key'' @ numberToString n, 2)]"
      using unique_browser_names[where key = "''key''" and m = "[(''key'', 1::nat)]"
          and v = 2] k by blast
    then show ?thesis by (intro exI[of _ n]) simp
  qed
  have c: "splitGlobalDumpsByBrowserName exampleTwoBrowsers =
     Inr [(''chrome'', [exampleGlobalDump 1 LIGHT []]),
          (''chrome2'', [exampleGlobalDump 2 LIGHT []])]"
    using unique_browser_names[where model = exampleTwoBrowsers
        and ?helper1.0 = "exampleBrowser 10 [exampleGlobalDump 1 LIGHT []]"
        and ?helper2.0 = "exampleBrowser 20 [exampleGlobalDump 2 LIGHT []]"
        and name = "''chrome''" and key = "''key''" and m = "[] :: nat dict" and v = 1]
    by (simp add: exampleTwoBrowsers_def exampleBrowser_def exampleGlobalDump_def)
  show ?thesis using a b c by (simp add: exampleTwoBrowsers_def)
qed

section \<open>Process names and sums\<close>

lemma toLowerCaseChar_space: "toLowerCaseChar c = CHR '' '' \<longleftrightarrow> c = CHR '' ''"
  by (simp add: toLowerCaseChar_def)

lemma toLowerCase_no_space:
  "CHR '' '' \<notin> set s \<Longrightarrow> CHR '' '' \<notin> set (toLowerCase s)"
proof
  assume a: "CHR '' '' \<notin> set s" and b: "CHR '' '' \<in> set (toLowerCase s)"
  from b obtain c where c: "c \<in> set s" "toLowerCaseChar c = CHR '' ''"
    by (auto simp: toLowerCase_def)
  then have "c = CHR '' ''" by (simp add: toLowerCaseChar_space)
  then show False using a c(1) by simp
qed

lemma replaceFirst_absent: "p \<notin> set s \<Longrightarrow> replaceFirst p r s = s"
  by (induction s) auto

lemma replaceFirst_first:
  "p \<notin> set a \<Longrightarrow> replaceFirst p r (a @ p # b) = a @ r # b"
  by (induction a) auto

lemma addProcessScalars_append:
  "addProcessScalars pn d (xs @ ys) =
   (case addProcessScalars pn d xs of
      Inl e \<Rightarrow> Inl e
    | Inr d' \<Rightarrow> addProcessScalars pn d' ys)"
  by (induction xs arbitrary: d) (auto split: sum.splits)

lemma sumProcessDumps_same_name:
  assumes "processNameOf p1 = k" and "processNameOf p2 = k"
  shows "sumProcessDumps ex [(i1, p1), (i2, p2)] [] =
         (case addProcessScalars k [] (ex p1 @ ex p2) of
            Inl e \<Rightarrow> Inl e
          | Inr d \<Rightarrow> Inr [(k, d)])"
  using assms by (simp add: addProcessScalars_append Let_def split: sum.splits)

text \<open>
  Claim C2 says that the key of a process is its name in lower case with the spaces
  collapsed. The source puts an underscore in the place of a space: the key of
  "GPU Process" is "gpu_process", which is neither the name in lower case with its
  spaces dropped nor with its runs of spaces merged into one space.
\<close>

theorem process_name_not_space_collapsed:
  "processNameOf (exampleProcess (Some ''GPU Process'')) = ''gpu_process'' \<and>
   spaceCollapsedName [] (exampleProcess (Some ''GPU Process'')) = ''gpuprocess'' \<and>
   spaceCollapsedName '' '' (exampleProcess (Some ''GPU Process'')) = ''gpu process'' \<and>
   processNameOf (exampleProcess (Some ''GPU Process''))
     \<noteq> spaceCollapsedName [] (exampleProcess (Some ''GPU Process'')) \<and>
   processNameOf (exampleProcess (Some ''GPU Process''))
     \<noteq> spaceCollapsedName '' '' (exampleProcess (Some ''GPU Process''))"
  by (simp add: processNameOf_def spaceCollapsedName_def exampleProcess_def toLowerCase_def
      toLowerCaseChar_def)

text \<open>
  Claim C2, amended: the key of a process memory dump is "unknown" when its process has
  no name or the empty name; it is the name in lower case when the name has no space, and
  the name in lower case with the space replaced by an underscore when the name has one
  space. Two process dumps named "Browser" and "browser" in one global dump are summed
  into the one group "browser": the group holds what the scalars of the first dump
  followed by the scalars of the second add up to, and for one value name of one unit the
  sum of the two values.
\<close>

theorem process_name_key_and_merge:
  "(process_name processDump = None \<or> process_name processDump = Some [] \<longrightarrow>
      processNameOf processDump = ''unknown'') \<and>
   (process_name processDump = Some name \<and> name \<noteq> [] \<and> CHR '' '' \<notin> set name \<longrightarrow>
      processNameOf processDump = toLowerCase name) \<and>
   (process_name processDump = Some (before @ '' '' @ rest) \<and>
    CHR '' '' \<notin> set before \<and> CHR '' '' \<notin> set rest \<longrightarrow>
      processNameOf processDump = toLowerCase before @ ''_'' @ toLowerCase rest) \<and>
   (process_name p1 = Some ''Browser'' \<and> process_name p2 = Some ''browser'' \<longrightarrow>
      sumProcessDumps extractValues [(i1, p1), (i2, p2)] [] =
        (case addProcessScalars ''browser'' [] (extractValues p1 @ extractValues p2) of
           Inl e \<Rightarrow> Inl e
         | Inr valueNameToScalar \<Rightarrow> Inr [(''browser'', valueNameToScalar)])) \<and>
   (process_name p1 = Some ''Browser'' \<and> process_name p2 = Some ''browser'' \<and>
    extractValues p1 = [(valueName, Some s1)] \<and> extractValues p2 = [(valueName, Some s2)] \<and>
    scalarUnit s1 = scalarUnit s2 \<longrightarrow>
      sumProcessDumps extractValues [(i1, p1), (i2, p2)] [] =
        Inr [(''browser'',
              [(valueName, \<lparr>scalarUnit = scalarUnit s1,
                            scalarValue = scalarValue s1 + scalarValue s2\<rparr>)])])"
proof -
  have a: "processNameOf processDump = ''unknown''"
    if "process_name processDump = None \<or> process_name processDump = Some []"
    using that by (auto simp: processNameOf_def toLowerCase_def toLowerCaseChar_def)
  have b: "processNameOf processDump = toLowerCase name"
    if "process_name processDump = Some name \<and> name \<noteq> [] \<and> CHR '' '' \<notin> set name"
    using that toLowerCase_no_space[of name]
    by (simp add: processNameOf_def replaceFirst_absent)
  have c: "processNameOf processDump = toLowerCase before @ ''_'' @ toLowerCase rest"
    if h: "process_name processDump = Some (before @ '' '' @ rest) \<and>
      CHR '' '' \<notin> set before \<and> CHR '' '' \<notin> set rest"
  proof -
    have "toLowerCase (before @ '' '' @ rest)
          = toLowerCase before @ CHR '' '' # toLowerCase rest"
      by (simp add: toLowerCase_def toLowerCaseChar_def)
    then show ?thesis
      using h toLowerCase_no_space[of before]
      by (simp add: processNameOf_def replaceFirst_first)
  qed
  have k: "processNameOf p = ''browser''"
    if "process_name p = Some ''Browser'' \<or> process_name p = Some ''browser''" for p
    using that by (auto simp: processNameOf_def toLowerCase_def toLowerCaseChar_def)
  have d: "sumProcessDumps extractValues [(i1, p1), (i2, p2)] [] =
        (case addProcessScalars ''browser'' [] (extractValues p1 @ extractValues p2) of
           Inl e \<Rightarrow> Inl e
         | Inr valueNameToScalar \<Rightarrow> Inr [(''browser'', valueNameToScalar)])"
    if "process_name p1 = Some ''Browser'' \<and> process_name p2 = Some ''browser''"
    using that sumProcessDumps_same_name[of p1 "''browser''" p2 extractValues i1 i2] k by simp
  have e: "sumProcessDumps extractValues [(i1, p1), (i2, p2)] [] =
        Inr [(''browser'',
              [(valueName, \<lparr>scalarUnit = scalarUnit s1,
                            scalarValue = scalarValue s1 + scalarValue s2\<rparr>)])]"
    if "process_name p1 = Some ''Browser'' \<and> process_name p2 = Some ''browser'' \<and>
        extractValues p1 = [(valueName, Some s1)] \<and> extractValues p2 = [(valueName, Some s2)] \<and>
        scalarUnit s1 = scalarUnit s2"
    using that d by (simp add: addProcessScalar_def)
  show ?thesis using a b c d e by blast
qed

text \<open>Processes without a name, named "Renderer" and named "GPU Process"; a global dump
  of the processes "Browser" and "browser", counted by the general extractor.\<close>

theorem process_name_key_and_merge_witness:
  "process_name (exampleProcess None) = None \<and>
   processNameOf (exampleProcess None) = ''unknown'' \<and>
   processNameOf (exampleProcess (Some ''Renderer'')) = ''renderer'' \<and>
   processNameOf (exampleProcess (Some ''GPU Process'')) = ''gpu_process'' \<and>
   generalExtractor (exampleProcess (Some ''Browser'')) =
     [(''process_count'',
       Some \<lparr>scalarUnit = unitlessNumber_smallerIsBetter, scalarValue = 1\<rparr>)] \<and>
   sumProcessDumps generalExtractor
     [(1, exampleProcess (Some ''Browser'')), (2, exampleProcess (Some ''browser''))] []
     = Inr [(''browser'',
             [(''process_count'',
               \<lparr>scalarUnit = unitlessNumber_smallerIsBetter, scalarValue = 2\<rparr>)])]"
proof -
  have n: "process_name (exampleProcess x) = x" for x by (simp add: exampleProcess_def)
  have g: "generalExtractor (exampleProcess x) =
     [(''process_count'',
       Some \<lparr>scalarUnit = unitlessNumber_smallerIsBetter, scalarValue = 1\<rparr>)]" for x
    by (simp add: generalExtractor_def exampleProcess_def)
  have a: "processNameOf (exampleProcess None) = ''unknown''"
    using process_name_key_and_merge[where processDump = "exampleProcess None"] n by simp
  have b: "processNameOf (exampleProcess (Some ''Renderer'')) = ''renderer''"
    using process_name_key_and_merge[where processDump = "exampleProcess (Some ''Renderer'')"
        and name = "''Renderer''"] n
    by (simp add: toLowerCase_def toLowerCaseChar_def)
  have c: "processNameOf (exampleProcess (Some ''GPU Process'')) = ''gpu_process''"
    using process_name_key_and_merge[where processDump = "exampleProcess (Some ''GPU Process'')"
        and before = "''GPU''" and rest = "''Process''"] n
    by (simp add: toLowerCase_def toLowerCaseChar_def)
  have d: "sumProcessDumps generalExtractor
     [(1, exampleProcess (Some ''Browser'')), (2, exampleProcess (Some ''browser''))] []
     = Inr [(''browser'',
             [(''process_count'',
               \<lparr>scalarUnit = unitlessNumber_smallerIsBetter, scalarValue = 2\<rparr>)])]"
  proof -
    let ?one = "\<lparr>scalarUnit = unitlessNumber_smallerIsBetter, scalarValue = 1\<rparr>"
    have h: "process_name (exampleProcess (Some ''Browser'')) = Some ''Browser'' \<and>
        process_name (exampleProcess (Some ''browser'')) = Some ''browser'' \<and>
        generalExtractor (exampleProcess (Some ''Browser'')) = [(''process_count'', Some ?one)] \<and>
        generalExtractor (exampleProcess (Some ''browser'')) = [(''process_count'', Some ?one)] \<and>
        scalarUnit ?one = scalarUnit ?one"
      using n g by simp
    have "sumProcessDumps generalExtractor
       [(1, exampleProcess (Some ''Browser'')), (2, exampleProcess (Some ''browser''))] []
       = Inr [(''browser'',
               [(''process_count'',
                 \<lparr>scalarUnit = scalarUnit ?one,
                  scalarValue = scalarValue ?one + scalarValue ?one\<rparr>)])]"
      using process_name_key_and_merge[where ?p1.0 = "exampleProcess (Some ''Browser'')"
          and ?p2.0 = "exampleProcess (Some ''browser'')" and extractValues = generalExtractor
          and valueName = "''process_count''" and ?s1.0 = ?one and ?s2.0 = ?one
          and ?i1.0 = 1 and ?i2.0 = 2] h
      by blast
    then show ?thesis by (simp del: sumProcessDumps.simps)
  qed
  show ?thesis using n g a b c d by (simp del: sumProcessDumps.simps)
qed

section \<open>Units of the sums and of the totals\<close>

lemma addProcessScalar_unit:
  assumes "addProcessScalar pn d n (Some p) = Inr d'"
  shows "\<exists>s. map_of d' n = Some s \<and> scalarUnit s = scalarUnit p"
  using assms
  by (auto simp: addProcessScalar_def update_conv' split: option.splits if_splits)

lemma addProcessScalar_keeps_unit:
  assumes "addProcessScalar pn d n x = Inr d'" and "map_of d m = Some s"
  shows "\<exists>s'. map_of d' m = Some s' \<and> scalarUnit s' = scalarUnit s"
  using assms
  by (cases "m = n")
    (auto simp: addProcessScalar_def update_conv' split: option.splits if_splits)

lemma addProcessScalar_error:
  assumes "addProcessScalar pn d n x = Inl e"
  shows "\<exists>u1 u2. e = MultipleUnitsOfProcesses n pn u1 u2 \<and> u1 \<noteq> u2"
  using assms
  by (auto simp: addProcessScalar_def split: option.splits if_splits)

lemma addProcessScalars_keeps_unit:
  "addProcessScalars pn d calls = Inr d' \<Longrightarrow> map_of d m = Some s \<Longrightarrow>
   \<exists>s'. map_of d' m = Some s' \<and> scalarUnit s' = scalarUnit s"
proof (induction calls arbitrary: d s)
  case Nil
  then show ?case by simp
next
  case (Cons c calls)
  obtain n x where c: "c = (n, x)" by (cases c)
  obtain d1 where d1: "addProcessScalar pn d n x = Inr d1"
    "addProcessScalars pn d1 calls = Inr d'"
    using Cons.prems(1) c by (auto split: sum.splits)
  obtain s1 where "map_of d1 m = Some s1" "scalarUnit s1 = scalarUnit s"
    using addProcessScalar_keeps_unit[OF d1(1) Cons.prems(2)] by blast
  then show ?case using Cons.IH[OF d1(2)] by fastforce
qed

lemma addProcessScalars_unit:
  "addProcessScalars pn d calls = Inr d' \<Longrightarrow> (n, Some p) \<in> set calls \<Longrightarrow>
   \<exists>s. map_of d' n = Some s \<and> scalarUnit s = scalarUnit p"
proof (induction calls arbitrary: d)
  case Nil
  then show ?case by simp
next
  case (Cons c calls)
  obtain m x where c: "c = (m, x)" by (cases c)
  obtain d1 where d1: "addProcessScalar pn d m x = Inr d1"
    "addProcessScalars pn d1 calls = Inr d'"
    using Cons.prems(1) c by (auto split: sum.splits)
  show ?case
  proof (cases "(n, Some p) = c")
    case True
    then obtain s1 where "map_of d1 n = Some s1" "scalarUnit s1 = scalarUnit p"
      using addProcessScalar_unit[of pn d n p d1] d1(1) c by auto
    then show ?thesis using addProcessScalars_keeps_unit[OF d1(2)] by fastforce
  next
    case False
    then have "(n, Some p) \<in> set calls" using Cons.prems(2) by auto
    then show ?thesis using Cons.IH[OF d1(2)] by blast
  qed
qed

lemma addProcessScalars_error:
  "addProcessScalars pn d calls = Inl e \<Longrightarrow>
   \<exists>n u1 u2. e = MultipleUnitsOfProcesses n pn u1 u2 \<and> u1 \<noteq> u2"
proof (induction calls arbitrary: d)
  case Nil
  then show ?case by simp
next
  case (Cons c calls)
  obtain m x where c: "c = (m, x)" by (cases c)
  show ?case
  proof (cases "addProcessScalar pn d m x")
    case (Inl e')
    then show ?thesis using Cons.prems c addProcessScalar_error[OF Inl] by auto
  next
    case (Inr d1)
    then show ?thesis using Cons.prems c Cons.IH[of d1] by auto
  qed
qed

lemma sumProcessDumps_keeps_unit:
  "sumProcessDumps ex pds t = Inr t' \<Longrightarrow> unitIn t k n = Some u \<Longrightarrow> unitIn t' k n = Some u"
proof (induction pds arbitrary: t)
  case Nil
  then show ?case by simp
next
  case (Cons c pds)
  obtain i p where c: "c = (i, p)" by (cases c)
  let ?k = "processNameOf p"
  let ?d = "case map_of t ?k of None \<Rightarrow> [] | Some existing \<Rightarrow> existing"
  obtain d1 where d1: "addProcessScalars ?k ?d (ex p) = Inr d1"
    "sumProcessDumps ex pds (AList.update ?k d1 t) = Inr t'"
    using Cons.prems(1) c by (auto simp: Let_def split: sum.splits)
  have "unitIn (AList.update ?k d1 t) k n = Some u"
  proof (cases "k = ?k")
    case True
    then obtain s where s: "map_of ?d n = Some s" "scalarUnit s = u"
      using Cons.prems(2) by (auto simp: unitIn_def split: option.splits)
    obtain s' where "map_of d1 n = Some s'" "scalarUnit s' = scalarUnit s"
      using addProcessScalars_keeps_unit[OF d1(1) s(1)] by blast
    then show ?thesis using True s(2) by (simp add: unitIn_def update_conv')
  next
    case False
    then show ?thesis using Cons.prems(2) by (simp add: unitIn_def update_conv')
  qed
  then show ?case using Cons.IH[OF d1(2)] by simp
qed

lemma sumProcessDumps_unit:
  "sumProcessDumps ex pds t = Inr t' \<Longrightarrow> (i, p) \<in> set pds \<Longrightarrow> (n, Some x) \<in> set (ex p) \<Longrightarrow>
   unitIn t' (processNameOf p) n = Some (scalarUnit x)"
proof (induction pds arbitrary: t)
  case Nil
  then show ?case by simp
next
  case (Cons c pds)
  obtain j q where c: "c = (j, q)" by (cases c)
  let ?k = "processNameOf q"
  let ?d = "case map_of t ?k of None \<Rightarrow> [] | Some existing \<Rightarrow> existing"
  obtain d1 where d1: "addProcessScalars ?k ?d (ex q) = Inr d1"
    "sumProcessDumps ex pds (AList.update ?k d1 t) = Inr t'"
    using Cons.prems(1) c by (auto simp: Let_def split: sum.splits)
  show ?case
  proof (cases "(i, p) = c")
    case True
    then have q: "q = p" using c by simp
    obtain s where "map_of d1 n = Some s" "scalarUnit s = scalarUnit x"
      using addProcessScalars_unit[OF d1(1)] Cons.prems(3) q by blast
    then have "unitIn (AList.update ?k d1 t) (processNameOf p) n = Some (scalarUnit x)"
      using q by (simp add: unitIn_def update_conv')
    then show ?thesis using sumProcessDumps_keeps_unit[OF d1(2)] by simp
  next
    case False
    then have "(i, p) \<in> set pds" using Cons.prems(2) by auto
    then show ?thesis using Cons.IH[OF d1(2) _ Cons.prems(3)] by simp
  qed
qed

lemma sumProcessDumps_error:
  "sumProcessDumps ex pds t = Inl e \<Longrightarrow>
   \<exists>n pn u1 u2. e = MultipleUnitsOfProcesses n pn u1 u2 \<and> u1 \<noteq> u2"
proof (induction pds arbitrary: t)
  case Nil
  then show ?case by simp
next
  case (Cons c pds)
  obtain j q where c: "c = (j, q)" by (cases c)
  let ?k = "processNameOf q"
  let ?d = "case map_of t ?k of None \<Rightarrow> [] | Some existing \<Rightarrow> existing"
  show ?case
  proof (cases "addProcessScalars ?k ?d (ex q)")
    case (Inl e')
    then have "e = e'" using Cons.prems c by (simp add: Let_def)
    then show ?thesis using addProcessScalars_error[OF Inl] by blast
  next
    case (Inr d1)
    then have "sumProcessDumps ex pds (AList.update ?k d1 t) = Inl e"
      using Cons.prems c by (simp add: Let_def)
    then show ?thesis by (rule Cons.IH)
  qed
qed

lemma sumProcessDumps_unit_clash:
  assumes "(i1, p1) \<in> set pds" and "(i2, p2) \<in> set pds"
    and "processNameOf p1 = processNameOf p2"
    and "(n, Some x) \<in> set (ex p1)" and "(n, Some y) \<in> set (ex p2)"
    and "scalarUnit x \<noteq> scalarUnit y"
  shows "\<exists>vn pn u1 u2. sumProcessDumps ex pds [] = Inl (MultipleUnitsOfProcesses vn pn u1 u2) \<and>
           u1 \<noteq> u2"
proof (cases "sumProcessDumps ex pds []")
  case (Inl e)
  then show ?thesis using sumProcessDumps_error[OF Inl] by auto
next
  case (Inr t')
  have "unitIn t' (processNameOf p1) n = Some (scalarUnit x)"
    using sumProcessDumps_unit[OF Inr assms(1,4)] .
  moreover have "unitIn t' (processNameOf p2) n = Some (scalarUnit y)"
    using sumProcessDumps_unit[OF Inr assms(2,5)] .
  ultimately show ?thesis using assms(3,6) by simp
qed

lemma calculate_error:
  "g \<in> set gds \<Longrightarrow> sumProcessDumps ex (processMemoryDumps g) [] = Inl e \<Longrightarrow>
   \<exists>e'. calculatePerProcessNameMemoryDumpValues gds ex = Inl e'"
  by (induction gds) (auto split: sum.splits)

lemma reduceScalars_units:
  "reduceScalars vn u xs acc = Inr r \<Longrightarrow> Some s \<in> set xs \<Longrightarrow> scalarUnit s = u"
proof (induction xs arbitrary: acc)
  case Nil
  then show ?case by simp
next
  case (Cons x xs)
  show ?case
  proof (cases x)
    case None
    then show ?thesis using Cons by simp
  next
    case (Some y)
    then have u: "scalarUnit y = u"
      and r: "reduceScalars vn u xs (acc + scalarValue y) = Inr r"
      using Cons.prems(1) by (simp_all split: if_splits)
    show ?thesis
    proof (cases "s = y")
      case True
      then show ?thesis using u by simp
    next
      case False
      then have "Some s \<in> set xs" using Cons.prems(2) Some by simp
      then show ?thesis using Cons.IH[OF r] by simp
    qed
  qed
qed

lemma reduceScalars_error:
  "reduceScalars vn u xs acc = Inl e \<Longrightarrow>
   \<exists>u2. e = MultipleUnitsOfDifferentProcesses vn u u2 \<and> u \<noteq> u2"
proof (induction xs arbitrary: acc)
  case Nil
  then show ?case by simp
next
  case (Cons x xs)
  show ?case
  proof (cases x)
    case None
    then show ?thesis using Cons by simp
  next
    case (Some y)
    show ?thesis
    proof (cases "scalarUnit y = u")
      case True
      then have "reduceScalars vn u xs (acc + scalarValue y) = Inl e"
        using Cons.prems Some by simp
      then show ?thesis by (rule Cons.IH)
    next
      case False
      then have "e = MultipleUnitsOfDifferentProcesses vn u (scalarUnit y)"
        using Cons.prems Some by simp
      then show ?thesis using False by blast
    qed
  qed
qed

lemma find_defined:
  "Some s \<in> set xs \<Longrightarrow> \<exists>f. find (\<lambda>scalar. scalar \<noteq> None) xs = Some (Some f)"
proof (induction xs)
  case Nil
  then show ?case by simp
next
  case (Cons x xs)
  then show ?case by (cases x) auto
qed

lemma totalScalar_first:
  "find (\<lambda>scalar. scalar \<noteq> None) xs = Some (Some f) \<Longrightarrow>
   totalScalar vn xs =
     (case reduceScalars vn (scalarUnit f) xs 0 of
        Inl e \<Rightarrow> Inl e
      | Inr totalValue \<Rightarrow> Inr \<lparr>scalarUnit = scalarUnit f, scalarValue = totalValue\<rparr>)"
  by (simp add: totalScalar_def)

lemma totalScalar_error:
  assumes "totalScalar vn xs = Inl e" and "Some s \<in> set xs"
  shows "\<exists>u1 u2. e = MultipleUnitsOfDifferentProcesses vn u1 u2 \<and> u1 \<noteq> u2"
proof -
  obtain f where f: "find (\<lambda>scalar. scalar \<noteq> None) xs = Some (Some f)"
    using find_defined[OF assms(2)] by blast
  show ?thesis
  proof (cases "reduceScalars vn (scalarUnit f) xs 0")
    case (Inl e')
    then have "e = e'" using totalScalar_first[OF f, of vn] assms(1) by simp
    then show ?thesis using reduceScalars_error[OF Inl] by blast
  next
    case (Inr r)
    then show ?thesis using totalScalar_first[OF f, of vn] assms(1) by simp
  qed
qed

lemma totalScalar_unit_clash:
  assumes "Some s1 \<in> set xs" and "Some s2 \<in> set xs" and "scalarUnit s1 \<noteq> scalarUnit s2"
  shows "\<exists>e. totalScalar vn xs = Inl e"
proof -
  obtain f where f: "find (\<lambda>scalar. scalar \<noteq> None) xs = Some (Some f)"
    using find_defined[OF assms(1)] by blast
  show ?thesis
  proof (cases "reduceScalars vn (scalarUnit f) xs 0")
    case (Inl e)
    then show ?thesis using totalScalar_first[OF f, of vn] by simp
  next
    case (Inr r)
    have "scalarUnit s1 = scalarUnit f" using reduceScalars_units[OF Inr assms(1)] .
    moreover have "scalarUnit s2 = scalarUnit f" using reduceScalars_units[OF Inr assms(2)] .
    ultimately show ?thesis using assms(3) by simp
  qed
qed

lemma totalScalars_error_entry:
  "totalScalars inverted = Inl e \<Longrightarrow>
   \<exists>vn xs. (vn, xs) \<in> set inverted \<and> totalScalar vn xs = Inl e"
proof (induction inverted)
  case Nil
  then show ?case by simp
next
  case (Cons c inverted)
  obtain vn xs where c: "c = (vn, xs)" by (cases c)
  show ?case
  proof (cases "totalScalar vn xs")
    case (Inl e')
    then have "e = e'" using Cons.prems c by simp
    then show ?thesis using Inl c by auto
  next
    case (Inr r)
    then have "totalScalars inverted = Inl e"
      using Cons.prems c by (cases "totalScalars inverted") simp_all
    then obtain vn' xs' where "(vn', xs') \<in> set inverted" "totalScalar vn' xs' = Inl e"
      using Cons.IH by blast
    then show ?thesis by auto
  qed
qed

lemma totalScalars_fails:
  "(vn, xs) \<in> set inverted \<Longrightarrow> totalScalar vn xs = Inl e \<Longrightarrow>
   \<exists>e'. totalScalars inverted = Inl e'"
proof (induction inverted)
  case Nil
  then show ?case by simp
next
  case (Cons c inverted)
  obtain vn' xs' where c: "c = (vn', xs')" by (cases c)
  show ?case
  proof (cases "totalScalar vn' xs'")
    case (Inl e')
    then show ?thesis using c by simp
  next
    case (Inr r)
    then have "(vn, xs) \<in> set inverted" using Cons.prems c by auto
    then obtain e' where "totalScalars inverted = Inl e'" using Cons.IH Cons.prems(2) by blast
    then show ?thesis using Inr c by simp
  qed
qed

lemma invertArrayOfDicts_entry:
  assumes "(vn, xs) \<in> set (invertArrayOfDicts array)"
  shows "xs = map (\<lambda>d. map_of d vn) array \<and> (\<exists>d\<in>set array. vn \<in> fst ` set d)"
proof -
  obtain key where key: "key \<in> set (rev (remdups (rev (concat (map (map fst) array)))))"
    "(vn, xs) = (key, map (\<lambda>d. map_of d key) array)"
    using assms unfolding invertArrayOfDicts_def by (metis (no_types, lifting) imageE list.set_map)
  have "key \<in> set (concat (map (map fst) array))" using key(1) by simp
  then obtain d where "d \<in> set array" "key \<in> fst ` set d" by auto
  then show ?thesis using key(2) by auto
qed

lemma invertArrayOfDicts_has:
  assumes "d \<in> set array" and "map_of d vn = Some s"
  shows "(vn, map (\<lambda>d. map_of d vn) array) \<in> set (invertArrayOfDicts array)"
proof -
  have "(vn, s) \<in> set d" using assms(2) by (rule map_of_SomeD)
  then have "vn \<in> fst ` set d" by (rule rev_image_eqI) simp
  then have "vn \<in> set (concat (map (map fst) array))" using assms(1) by auto
  then have "vn \<in> set (rev (remdups (rev (concat (map (map fst) array)))))" by simp
  then show ?thesis unfolding invertArrayOfDicts_def by (simp add: image_iff)
qed

lemma invertArrayOfDicts_defined:
  assumes "(vn, xs) \<in> set (invertArrayOfDicts array)"
  shows "\<exists>s. Some s \<in> set xs"
proof -
  obtain d where d: "d \<in> set array" "vn \<in> fst ` set d"
    and xs: "xs = map (\<lambda>d. map_of d vn) array"
    using invertArrayOfDicts_entry[OF assms] by blast
  have "vn \<in> dom (map_of d)" using d(2) by (simp add: dom_map_of_conv_image_fst)
  then obtain s where "map_of d vn = Some s" by blast
  then have "Some s \<in> (\<lambda>d. map_of d vn) ` set array" using d(1) by (metis imageI)
  then show ?thesis using xs by auto
qed

lemma injectTotals_unit_clash:
  assumes "(k1, d1) \<in> set t" and "(k2, d2) \<in> set t"
    and "map_of d1 n = Some s1" and "map_of d2 n = Some s2"
    and "scalarUnit s1 \<noteq> scalarUnit s2"
  shows "\<exists>vn u1 u2. injectTotals t = Inl (MultipleUnitsOfDifferentProcesses vn u1 u2) \<and>
           u1 \<noteq> u2"
proof -
  let ?array = "dictionaryValues t"
  let ?inv = "invertArrayOfDicts ?array"
  let ?xs = "map (\<lambda>d. map_of d n) ?array"
  have in1: "d1 \<in> set ?array"
    using assms(1) unfolding dictionaryValues_def by (metis image_eqI list.set_map snd_conv)
  have in2: "d2 \<in> set ?array"
    using assms(2) unfolding dictionaryValues_def by (metis image_eqI list.set_map snd_conv)
  have entry: "(n, ?xs) \<in> set ?inv" using invertArrayOfDicts_has[OF in1 assms(3)] .
  have x1: "Some s1 \<in> set ?xs" using in1 assms(3) by (metis (mono_tags, lifting) image_eqI list.set_map)
  have x2: "Some s2 \<in> set ?xs" using in2 assms(4) by (metis (mono_tags, lifting) image_eqI list.set_map)
  obtain e0 where "totalScalar n ?xs = Inl e0"
    using totalScalar_unit_clash[OF x1 x2 assms(5)] by blast
  then obtain e where e: "totalScalars ?inv = Inl e"
    using totalScalars_fails[OF entry] by blast
  then obtain vn xs where vx: "(vn, xs) \<in> set ?inv" "totalScalar vn xs = Inl e"
    using totalScalars_error_entry[OF e] by blast
  obtain s where "Some s \<in> set xs" using invertArrayOfDicts_defined[OF vx(1)] by blast
  then obtain v1 v2 where "e = MultipleUnitsOfDifferentProcesses vn v1 v2" "v1 \<noteq> v2"
    using totalScalar_error[OF vx(2)] by blast
  then show ?thesis using e by (simp add: injectTotals_def Let_def)
qed

lemma injectTotalsAll_fails:
  "t \<in> set ts \<Longrightarrow> injectTotals t = Inl e \<Longrightarrow>
   \<exists>e'. injectTotalsIntoPerProcessNameMemoryDumpValues ts = Inl e'"
proof (induction ts)
  case Nil
  then show ?case by simp
next
  case (Cons a ts)
  show ?case
  proof (cases "injectTotals a")
    case (Inl e')
    then show ?thesis by simp
  next
    case (Inr r)
    then have "t \<in> set ts" using Cons.prems by auto
    then obtain e' where "injectTotalsIntoPerProcessNameMemoryDumpValues ts = Inl e'"
      using Cons.IH Cons.prems(2) by blast
    then show ?thesis using Inr by simp
  qed
qed

lemma exampleObjectsProcess_calls:
  "generalExtractor (exampleObjectsProcess u) =
     [(''process_count'',
         Some \<lparr>scalarUnit = unitlessNumber_smallerIsBetter, scalarValue = 1\<rparr>),
      (''subsystem:v8'', None),
      (''subsystem:v8:allocated_objects'', Some \<lparr>scalarUnit = u, scalarValue = 4096\<rparr>)]"
  by (simp add: generalExtractor_def exampleObjectsProcess_def DISPLAYED_SIZE_NUMERIC_NAME_def)

lemma exampleClashInTime_values:
  "generalMemoryDumpValues exampleClashInTime =
   Inr [[(''renderer'',
          [(''process_count'',
              \<lparr>scalarUnit = unitlessNumber_smallerIsBetter, scalarValue = 1\<rparr>),
           (''subsystem:v8:allocated_objects'',
              \<lparr>scalarUnit = sizeInBytes_smallerIsBetter, scalarValue = 4096\<rparr>)]),
         (''all'',
          [(''process_count'',
              \<lparr>scalarUnit = unitlessNumber_smallerIsBetter, scalarValue = 1\<rparr>),
           (''subsystem:v8:allocated_objects'',
              \<lparr>scalarUnit = sizeInBytes_smallerIsBetter, scalarValue = 4096\<rparr>)])],
        [(''renderer'',
          [(''process_count'',
              \<lparr>scalarUnit = unitlessNumber_smallerIsBetter, scalarValue = 1\<rparr>),
           (''subsystem:v8:allocated_objects'',
              \<lparr>scalarUnit = unitlessNumber_smallerIsBetter, scalarValue = 4096\<rparr>)]),
         (''all'',
          [(''process_count'',
              \<lparr>scalarUnit = unitlessNumber_smallerIsBetter, scalarValue = 1\<rparr>),
           (''subsystem:v8:allocated_objects'',
              \<lparr>scalarUnit = unitlessNumber_smallerIsBetter, scalarValue = 4096\<rparr>)])]]"
proof -
  have n: "processNameOf (exampleObjectsProcess u) = ''renderer''" for u
    by (simp add: processNameOf_def exampleObjectsProcess_def toLowerCase_def
        toLowerCaseChar_def)
  show ?thesis
    by (simp add: generalMemoryDumpValues_def perProcessNameMemoryDumpValues_def
        exampleClashInTime_def exampleGlobalDump_def exampleObjectsProcess_calls n
        addProcessScalar_def injectTotals_def invertArrayOfDicts_def dictionaryValues_def
        totalScalar_def ALL_PROCESS_NAMES_def)
qed

text \<open>
  Claim C6 says that summing or merging two scalars of different units under one value
  name raises an error. The merge of \<^verbatim>\<open>mergeScalarsIntoNumeric\<close>, which puts the scalars
  that a value name has at the timestamps into one histogram, raises none: it takes the
  builder of the unit of the first scalar and adds the value of every scalar, whatever
  its unit. Here the allocated objects of "v8" are sized in bytes in the first global
  dump of a browser and as a plain number in the second. Within each dump the sums and
  the totals are of one unit, so the first two stages pass, and the general memory
  values are reported with one histogram of bytes that holds both values.
\<close>

theorem unit_mismatch_not_fatal_over_time:
  "mergeScalarsIntoNumeric
     [Some \<lparr>scalarUnit = sizeInBytes_smallerIsBetter, scalarValue = 4096\<rparr>,
      Some \<lparr>scalarUnit = unitlessNumber_smallerIsBetter, scalarValue = 4096\<rparr>]
   = Inr \<lparr>numericBuilder =
            BoundaryAndExponentialBuilder sizeInBytes_smallerIsBetter 0 1024
              (16 * 1024 * 1024 * 1024) (4 * 24),
          numericSamples = [4096, 4096]\<rparr> \<and>
   addGeneralMemoryDumpValues [(''chrome'', exampleClashInTime)] [] ''http://example.com/''
   = Inr [MemoryNumericValue ''http://example.com/'' ''memory:chrome:renderer:process_count''
            \<lparr>numericBuilder = LinearBuilder unitlessNumber_smallerIsBetter 0 20 20,
               numericSamples = [1, 1]\<rparr>,
          MemoryNumericValue ''http://example.com/''
            ''memory:chrome:renderer:subsystem:v8:allocated_objects''
            \<lparr>numericBuilder =
               BoundaryAndExponentialBuilder sizeInBytes_smallerIsBetter 0 1024
                 (16 * 1024 * 1024 * 1024) (4 * 24),
               numericSamples = [4096, 4096]\<rparr>,
          MemoryNumericValue ''http://example.com/'' ''memory:chrome:all:process_count''
            \<lparr>numericBuilder = LinearBuilder unitlessNumber_smallerIsBetter 0 20 20,
               numericSamples = [1, 1]\<rparr>,
          MemoryNumericValue ''http://example.com/''
            ''memory:chrome:all:subsystem:v8:allocated_objects''
            \<lparr>numericBuilder =
               BoundaryAndExponentialBuilder sizeInBytes_smallerIsBetter 0 1024
                 (16 * 1024 * 1024 * 1024) (4 * 24),
               numericSamples = [4096, 4096]\<rparr>]"
proof -
  have m: "mergeScalarsIntoNumeric
     [Some \<lparr>scalarUnit = sizeInBytes_smallerIsBetter, scalarValue = 4096\<rparr>,
      Some \<lparr>scalarUnit = unitlessNumber_smallerIsBetter, scalarValue = 4096\<rparr>]
   = Inr \<lparr>numericBuilder =
            BoundaryAndExponentialBuilder sizeInBytes_smallerIsBetter 0 1024
              (16 * 1024 * 1024 * 1024) (4 * 24),
          numericSamples = [4096, 4096]\<rparr>"
    by (simp add: mergeScalarsIntoNumeric_def MEMORY_NUMERIC_BUILDER_MAP_def buildNumeric_def
        addSample_def)
  have v: "perProcessNameMemoryDumpValues exampleClashInTime (\<lambda>gmd. True) generalExtractor =
           generalMemoryDumpValues exampleClashInTime"
    by (simp add: generalMemoryDumpValues_def)
  have r: "addGeneralMemoryDumpValues [(''chrome'', exampleClashInTime)] []
             ''http://example.com/'' =
           Inr [MemoryNumericValue ''http://example.com/''
                  ''memory:chrome:renderer:process_count''
                  \<lparr>numericBuilder = LinearBuilder unitlessNumber_smallerIsBetter 0 20 20,
                     numericSamples = [1, 1]\<rparr>,
                MemoryNumericValue ''http://example.com/''
                  ''memory:chrome:renderer:subsystem:v8:allocated_objects''
                  \<lparr>numericBuilder =
                     BoundaryAndExponentialBuilder sizeInBytes_smallerIsBetter 0 1024
                       (16 * 1024 * 1024 * 1024) (4 * 24),
                     numericSamples = [4096, 4096]\<rparr>,
                MemoryNumericValue ''http://example.com/'' ''memory:chrome:all:process_count''
                  \<lparr>numericBuilder = LinearBuilder unitlessNumber_smallerIsBetter 0 20 20,
                     numericSamples = [1, 1]\<rparr>,
                MemoryNumericValue ''http://example.com/''
                  ''memory:chrome:all:subsystem:v8:allocated_objects''
                  \<lparr>numericBuilder =
                     BoundaryAndExponentialBuilder sizeInBytes_smallerIsBetter 0 1024
                       (16 * 1024 * 1024 * 1024) (4 * 24),
                     numericSamples = [4096, 4096]\<rparr>]"
    unfolding addGeneralMemoryDumpValues_def
    by (simp add: v exampleClashInTime_values reportPerProcessNameMemoryDumpValues_def
        invertArrayOfDicts_def mergeScalarsIntoNumeric_def MEMORY_NUMERIC_BUILDER_MAP_def
        buildNumeric_def addSample_def)
  show ?thesis using m r by (rule conjI)
qed

text \<open>
  Claim C6, amended: summing two scalars under one value name is an error whenever
  their units differ, both within a process-name group and in the totals over all
  process names of one global dump. Adding a scalar to the sum of its value name is an
  error when the units differ. When two process dumps of one process name in a global
  dump yield scalars of different units under one value name, the sums of that dump end
  in the error of multiple units, and so do the sums of every list of global dumps that
  contains it. When two groups of the table of one timestamp hold scalars of different
  units under one value name, the totals over all process names end in the error of
  multiple units, and so do the totals of every list of tables that contains it. The
  merge of the scalars of several timestamps into a histogram is not part of the amended
  claim.
\<close>

theorem unit_mismatch_is_fatal:
  "(map_of valueNameToScalar valueName = Some soFar \<and> scalarUnit scalar \<noteq> scalarUnit soFar \<longrightarrow>
      addProcessScalar processName valueNameToScalar valueName (Some scalar) =
        Inl (MultipleUnitsOfProcesses valueName processName
               (scalarUnit soFar) (scalarUnit scalar))) \<and>
   ((i1, p1) \<in> set (processMemoryDumps globalDump) \<and>
    (i2, p2) \<in> set (processMemoryDumps globalDump) \<and>
    processNameOf p1 = processNameOf p2 \<and>
    (valueName, Some x) \<in> set (extractValues p1) \<and>
    (valueName, Some y) \<in> set (extractValues p2) \<and>
    scalarUnit x \<noteq> scalarUnit y \<longrightarrow>
      (\<exists>vn pn u1 u2.
         sumProcessDumps extractValues (processMemoryDumps globalDump) [] =
           Inl (MultipleUnitsOfProcesses vn pn u1 u2) \<and> u1 \<noteq> u2) \<and>
      (globalDump \<in> set globalDumps \<longrightarrow>
         (\<exists>e. calculatePerProcessNameMemoryDumpValues globalDumps extractValues = Inl e))) \<and>
   ((k1, d1) \<in> set processNameToValueNameToScalar \<and>
    (k2, d2) \<in> set processNameToValueNameToScalar \<and>
    map_of d1 valueName = Some s1 \<and> map_of d2 valueName = Some s2 \<and>
    scalarUnit s1 \<noteq> scalarUnit s2 \<longrightarrow>
      (\<exists>vn u1 u2.
         injectTotals processNameToValueNameToScalar =
           Inl (MultipleUnitsOfDifferentProcesses vn u1 u2) \<and> u1 \<noteq> u2) \<and>
      (processNameToValueNameToScalar \<in> set timeToProcessNameToValueNameToScalar \<longrightarrow>
         (\<exists>e. injectTotalsIntoPerProcessNameMemoryDumpValues
                timeToProcessNameToValueNameToScalar = Inl e)))"
proof -
  have a: "addProcessScalar processName valueNameToScalar valueName (Some scalar) =
        Inl (MultipleUnitsOfProcesses valueName processName
               (scalarUnit soFar) (scalarUnit scalar))"
    if "map_of valueNameToScalar valueName = Some soFar \<and>
        scalarUnit scalar \<noteq> scalarUnit soFar"
    using that by (simp add: addProcessScalar_def)
  have b: "(\<exists>vn pn u1 u2.
         sumProcessDumps extractValues (processMemoryDumps globalDump) [] =
           Inl (MultipleUnitsOfProcesses vn pn u1 u2) \<and> u1 \<noteq> u2) \<and>
      (globalDump \<in> set globalDumps \<longrightarrow>
         (\<exists>e. calculatePerProcessNameMemoryDumpValues globalDumps extractValues = Inl e))"
    if h: "(i1, p1) \<in> set (processMemoryDumps globalDump) \<and>
      (i2, p2) \<in> set (processMemoryDumps globalDump) \<and>
      processNameOf p1 = processNameOf p2 \<and>
      (valueName, Some x) \<in> set (extractValues p1) \<and>
      (valueName, Some y) \<in> set (extractValues p2) \<and>
      scalarUnit x \<noteq> scalarUnit y"
  proof -
    obtain vn pn u1 u2 where e:
      "sumProcessDumps extractValues (processMemoryDumps globalDump) [] =
         Inl (MultipleUnitsOfProcesses vn pn u1 u2)" "u1 \<noteq> u2"
      using sumProcessDumps_unit_clash[of i1 p1 "processMemoryDumps globalDump" i2 p2
          valueName x extractValues y] h by blast
    have "\<exists>e. calculatePerProcessNameMemoryDumpValues globalDumps extractValues = Inl e"
      if "globalDump \<in> set globalDumps"
      using calculate_error[OF that e(1)] .
    then show ?thesis using e by blast
  qed
  have c: "(\<exists>vn u1 u2.
         injectTotals processNameToValueNameToScalar =
           Inl (MultipleUnitsOfDifferentProcesses vn u1 u2) \<and> u1 \<noteq> u2) \<and>
      (processNameToValueNameToScalar \<in> set timeToProcessNameToValueNameToScalar \<longrightarrow>
         (\<exists>e. injectTotalsIntoPerProcessNameMemoryDumpValues
                timeToProcessNameToValueNameToScalar = Inl e))"
    if h: "(k1, d1) \<in> set processNameToValueNameToScalar \<and>
      (k2, d2) \<in> set processNameToValueNameToScalar \<and>
      map_of d1 valueName = Some s1 \<and> map_of d2 valueName = Some s2 \<and>
      scalarUnit s1 \<noteq> scalarUnit s2"
  proof -
    obtain vn u1 u2 where e:
      "injectTotals processNameToValueNameToScalar =
         Inl (MultipleUnitsOfDifferentProcesses vn u1 u2)" "u1 \<noteq> u2"
      using injectTotals_unit_clash[of k1 d1 processNameToValueNameToScalar k2 d2
          valueName s1 s2] h by blast
    have "\<exists>e. injectTotalsIntoPerProcessNameMemoryDumpValues
                timeToProcessNameToValueNameToScalar = Inl e"
      if "processNameToValueNameToScalar \<in> set timeToProcessNameToValueNameToScalar"
      using injectTotalsAll_fails[OF that e(1)] .
    then show ?thesis using e by blast
  qed
  show ?thesis using a b c by blast
qed

lemma exampleV8Process_calls:
  "generalExtractor (exampleV8Process name u) =
     [(''process_count'',
         Some \<lparr>scalarUnit = unitlessNumber_smallerIsBetter, scalarValue = 1\<rparr>),
      (''subsystem:v8'', Some \<lparr>scalarUnit = u, scalarValue = 4096\<rparr>),
      (''subsystem:v8:allocated_objects'', None)]"
  by (simp add: generalExtractor_def exampleV8Process_def DISPLAYED_SIZE_NUMERIC_NAME_def)

lemma exampleV8Process_names:
  "processNameOf (exampleV8Process ''Renderer'' u) = ''renderer''"
  "processNameOf (exampleV8Process ''Browser'' u) = ''browser''"
  by (simp_all add: processNameOf_def exampleV8Process_def toLowerCase_def toLowerCaseChar_def)

lemma example_within_group:
  "sumProcessDumps generalExtractor
     [(1, exampleV8Process ''Renderer'' sizeInBytes_smallerIsBetter),
      (2, exampleV8Process ''Renderer'' unitlessNumber_smallerIsBetter)] []
   = Inl (MultipleUnitsOfProcesses ''subsystem:v8'' ''renderer''
            sizeInBytes_smallerIsBetter unitlessNumber_smallerIsBetter)"
  by (simp add: exampleV8Process_calls exampleV8Process_names addProcessScalar_def)

lemma example_across_groups:
  "sumProcessDumps generalExtractor
     [(1, exampleV8Process ''Browser'' sizeInBytes_smallerIsBetter),
      (2, exampleV8Process ''Renderer'' unitlessNumber_smallerIsBetter)] []
   = Inr [(''browser'',
           [(''process_count'',
               \<lparr>scalarUnit = unitlessNumber_smallerIsBetter, scalarValue = 1\<rparr>),
            (''subsystem:v8'',
               \<lparr>scalarUnit = sizeInBytes_smallerIsBetter, scalarValue = 4096\<rparr>)]),
          (''renderer'',
           [(''process_count'',
               \<lparr>scalarUnit = unitlessNumber_smallerIsBetter, scalarValue = 1\<rparr>),
            (''subsystem:v8'',
               \<lparr>scalarUnit = unitlessNumber_smallerIsBetter, scalarValue = 4096\<rparr>)])]"
  by (simp add: exampleV8Process_calls exampleV8Process_names addProcessScalar_def)

lemma example_totals:
  "injectTotals exampleMixedTable
   = Inl (MultipleUnitsOfDifferentProcesses ''subsystem:v8''
            sizeInBytes_smallerIsBetter unitlessNumber_smallerIsBetter)"
  by (simp add: exampleMixedTable_def injectTotals_def invertArrayOfDicts_def
      dictionaryValues_def totalScalar_def)

text \<open>A "v8" allocator dump sized in bytes in one process and as a plain number in
  another: two renderers clash within their group, a browser and a renderer clash in the
  totals.\<close>

theorem unit_mismatch_is_fatal_witness:
  "sumProcessDumps generalExtractor (processMemoryDumps exampleClashInGroup) []
     = Inl (MultipleUnitsOfProcesses ''subsystem:v8'' ''renderer''
              sizeInBytes_smallerIsBetter unitlessNumber_smallerIsBetter) \<and>
   (\<exists>e. calculatePerProcessNameMemoryDumpValues [exampleClashInGroup] generalExtractor
          = Inl e) \<and>
   sumProcessDumps generalExtractor
     [(1, exampleV8Process ''Browser'' sizeInBytes_smallerIsBetter),
      (2, exampleV8Process ''Renderer'' unitlessNumber_smallerIsBetter)] []
     = Inr exampleMixedTable \<and>
   injectTotals exampleMixedTable
     = Inl (MultipleUnitsOfDifferentProcesses ''subsystem:v8''
              sizeInBytes_smallerIsBetter unitlessNumber_smallerIsBetter) \<and>
   (\<exists>e. injectTotalsIntoPerProcessNameMemoryDumpValues [exampleMixedTable] = Inl e)"
proof -
  let ?bytes = "\<lparr>scalarUnit = sizeInBytes_smallerIsBetter, scalarValue = 4096\<rparr>"
  let ?count = "\<lparr>scalarUnit = unitlessNumber_smallerIsBetter, scalarValue = 4096\<rparr>"
  let ?p1 = "exampleV8Process ''Renderer'' sizeInBytes_smallerIsBetter"
  let ?p2 = "exampleV8Process ''Renderer'' unitlessNumber_smallerIsBetter"
  let ?d1 = "[(''process_count'',
               \<lparr>scalarUnit = unitlessNumber_smallerIsBetter, scalarValue = 1\<rparr>),
              (''subsystem:v8'', ?bytes)]"
  let ?d2 = "[(''process_count'',
               \<lparr>scalarUnit = unitlessNumber_smallerIsBetter, scalarValue = 1\<rparr>),
              (''subsystem:v8'', ?count)]"
  have pm: "processMemoryDumps exampleClashInGroup = [(1, ?p1), (2, ?p2)]"
    by (simp add: exampleClashInGroup_def exampleGlobalDump_def)
  have hA: "(1, ?p1) \<in> set (processMemoryDumps exampleClashInGroup) \<and>
    (2, ?p2) \<in> set (processMemoryDumps exampleClashInGroup) \<and>
    processNameOf ?p1 = processNameOf ?p2 \<and>
    (''subsystem:v8'', Some ?bytes) \<in> set (generalExtractor ?p1) \<and>
    (''subsystem:v8'', Some ?count) \<in> set (generalExtractor ?p2) \<and>
    scalarUnit ?bytes \<noteq> scalarUnit ?count"
    by (simp add: pm exampleV8Process_calls exampleV8Process_names)
  have hB: "(''browser'', ?d1) \<in> set exampleMixedTable \<and>
    (''renderer'', ?d2) \<in> set exampleMixedTable \<and>
    map_of ?d1 ''subsystem:v8'' = Some ?bytes \<and> map_of ?d2 ''subsystem:v8'' = Some ?count \<and>
    scalarUnit ?bytes \<noteq> scalarUnit ?count"
    by (simp add: exampleMixedTable_def)
  note t = unit_mismatch_is_fatal[where globalDump = exampleClashInGroup
      and ?i1.0 = 1 and ?p1.0 = ?p1 and ?i2.0 = 2 and ?p2.0 = ?p2
      and valueName = "''subsystem:v8''" and x = ?bytes and y = ?count
      and extractValues = generalExtractor and globalDumps = "[exampleClashInGroup]"
      and processNameToValueNameToScalar = exampleMixedTable
      and ?k1.0 = "''browser''" and ?d1.0 = ?d1 and ?k2.0 = "''renderer''" and ?d2.0 = ?d2
      and ?s1.0 = ?bytes and ?s2.0 = ?count
      and timeToProcessNameToValueNameToScalar = "[exampleMixedTable]"
      and valueNameToScalar = "[(''subsystem:v8'', ?bytes)]" and soFar = ?bytes
      and scalar = ?count and processName = "''renderer''"]
  have m: "exampleClashInGroup \<in> set [exampleClashInGroup]"
    "exampleMixedTable \<in> set [exampleMixedTable]" by simp_all
  have cA: "\<exists>e. calculatePerProcessNameMemoryDumpValues [exampleClashInGroup]
                 generalExtractor = Inl e"
    using t hA m(1) by blast
  have cB: "\<exists>e. injectTotalsIntoPerProcessNameMemoryDumpValues [exampleMixedTable] = Inl e"
    using t hB m(2) by blast
  show ?thesis
    using cA cB example_within_group example_across_groups example_totals
    by (simp add: pm exampleMixedTable_def del: sumProcessDumps.simps)
qed

section \<open>The VM statistics of detailed dumps\<close>

lemma vmstatsNames_eq:
  "vmstatsNames = [''vmstats:overall:pss'', ''vmstats:overall:private_dirty'',
     ''vmstats:java_heap:private_dirty'', ''vmstats:ashmem:pss'', ''vmstats:native_heap:pss'']"
  by (simp add: vmstatsNames_def MMAPS_METRICS_def)

lemma detailedExtractor_names: "map fst (detailedExtractor p) = vmstatsNames"
  by (simp add: detailedExtractor_def vmstatsNames_def split_def comp_def)

lemma detailedExtractor_bytes:
  "(n, x) \<in> set (detailedExtractor p) \<Longrightarrow>
   \<exists>v. x = Some \<lparr>scalarUnit = sizeInBytes_smallerIsBetter, scalarValue = v\<rparr>"
  by (auto simp: detailedExtractor_def)

lemma addProcessScalar_same_unit:
  assumes "unitsAre u d"
  shows "\<exists>d'. addProcessScalar pn d n (Some \<lparr>scalarUnit = u, scalarValue = v\<rparr>) = Inr d' \<and>
           unitsAre u d' \<and> map_of d' n \<noteq> None \<and>
           (\<forall>m. map_of d m \<noteq> None \<longrightarrow> map_of d' m \<noteq> None)"
proof (cases "map_of d n")
  case None
  then show ?thesis
    using assms by (auto simp: addProcessScalar_def unitsAre_def update_conv')
next
  case (Some s)
  then have "scalarUnit s = u" using assms by (simp add: unitsAre_def)
  then show ?thesis
    using assms Some by (auto simp: addProcessScalar_def unitsAre_def update_conv')
qed

lemma addProcessScalars_same_unit:
  "unitsAre u d \<Longrightarrow>
   \<forall>(n, x)\<in>set calls. \<exists>v. x = Some \<lparr>scalarUnit = u, scalarValue = v\<rparr> \<Longrightarrow>
   \<exists>d'. addProcessScalars pn d calls = Inr d' \<and> unitsAre u d' \<and>
        (\<forall>n\<in>set (map fst calls). map_of d' n \<noteq> None) \<and>
        (\<forall>m. map_of d m \<noteq> None \<longrightarrow> map_of d' m \<noteq> None)"
proof (induction calls arbitrary: d)
  case Nil
  then show ?case by simp
next
  case (Cons c calls)
  obtain n x where c: "c = (n, x)" by (cases c)
  obtain v where x: "x = Some \<lparr>scalarUnit = u, scalarValue = v\<rparr>"
    using Cons.prems(2) c by auto
  obtain d1 where d1: "addProcessScalar pn d n x = Inr d1" "unitsAre u d1"
    "map_of d1 n \<noteq> None" "\<forall>m. map_of d m \<noteq> None \<longrightarrow> map_of d1 m \<noteq> None"
    using addProcessScalar_same_unit[OF Cons.prems(1), of pn n v] x by blast
  have rest: "\<forall>(n, x)\<in>set calls. \<exists>v. x = Some \<lparr>scalarUnit = u, scalarValue = v\<rparr>"
    using Cons.prems(2) by simp
  obtain d' where d': "addProcessScalars pn d1 calls = Inr d'" "unitsAre u d'"
    "\<forall>n\<in>set (map fst calls). map_of d' n \<noteq> None"
    "\<forall>m. map_of d1 m \<noteq> None \<longrightarrow> map_of d' m \<noteq> None"
    using Cons.IH[OF d1(2) rest] by blast
  have "addProcessScalars pn d (c # calls) = Inr d'" using c d1(1) d'(1) by simp
  moreover have "\<forall>n\<in>set (map fst (c # calls)). map_of d' n \<noteq> None"
    using c d1(3) d'(3,4) by simp
  moreover have "\<forall>m. map_of d m \<noteq> None \<longrightarrow> map_of d' m \<noteq> None"
    using d1(4) d'(4) by blast
  ultimately show ?case using d'(2) by blast
qed

lemma sumProcessDumps_detailed:
  "tableInBytes t \<Longrightarrow>
   \<exists>t'. sumProcessDumps detailedExtractor pds t = Inr t' \<and> tableInBytes t' \<and>
        (\<forall>(i, p)\<in>set pds. hasVmstats t' (processNameOf p)) \<and>
        (\<forall>k. hasVmstats t k \<longrightarrow> hasVmstats t' k)"
proof (induction pds arbitrary: t)
  case Nil
  then show ?case by simp
next
  case (Cons c pds)
  obtain i p where c: "c = (i, p)" by (cases c)
  let ?k = "processNameOf p"
  let ?d = "case map_of t ?k of None \<Rightarrow> [] | Some existing \<Rightarrow> existing"
  let ?u = sizeInBytes_smallerIsBetter
  have ud: "unitsAre ?u ?d"
    using Cons.prems by (auto simp: tableInBytes_def unitsAre_def split: option.splits)
  have calls: "\<forall>(n, x)\<in>set (detailedExtractor p).
      \<exists>v. x = Some \<lparr>scalarUnit = ?u, scalarValue = v\<rparr>"
    using detailedExtractor_bytes by blast
  obtain d1 where d1: "addProcessScalars ?k ?d (detailedExtractor p) = Inr d1"
    "unitsAre ?u d1" "\<forall>n\<in>set (map fst (detailedExtractor p)). map_of d1 n \<noteq> None"
    using addProcessScalars_same_unit[OF ud calls, of ?k] by blast
  let ?t1 = "AList.update ?k d1 t"
  have t1: "tableInBytes ?t1"
    using Cons.prems d1(2) by (auto simp: tableInBytes_def update_conv')
  have h1: "hasVmstats ?t1 ?k"
    unfolding hasVmstats_def
  proof
    fix n assume "n \<in> set vmstatsNames"
    then obtain s where s: "map_of d1 n = Some s"
      using d1(3) detailedExtractor_names[of p] by auto
    then have "scalarUnit s = ?u" using d1(2) by (simp add: unitsAre_def)
    then show "unitIn ?t1 ?k n = Some ?u" using s by (simp add: unitIn_def update_conv')
  qed
  have keep1: "hasVmstats ?t1 k" if "hasVmstats t k" for k
  proof (cases "k = ?k")
    case True
    then show ?thesis using h1 by simp
  next
    case False
    then show ?thesis using that by (simp add: hasVmstats_def unitIn_def update_conv')
  qed
  obtain t' where t': "sumProcessDumps detailedExtractor pds ?t1 = Inr t'" "tableInBytes t'"
    "\<forall>(i, p)\<in>set pds. hasVmstats t' (processNameOf p)"
    "\<forall>k. hasVmstats ?t1 k \<longrightarrow> hasVmstats t' k"
    using Cons.IH[OF t1] by blast
  have "sumProcessDumps detailedExtractor (c # pds) t = Inr t'"
    using c d1(1) t'(1) by (simp add: Let_def)
  moreover have "\<forall>(i, p)\<in>set (c # pds). hasVmstats t' (processNameOf p)"
    using c h1 t'(3,4) by simp
  moreover have "\<forall>k. hasVmstats t k \<longrightarrow> hasVmstats t' k"
    using keep1 t'(4) by blast
  ultimately show ?case using t'(2) by blast
qed

lemma calculate_detailed:
  "\<exists>ts. calculatePerProcessNameMemoryDumpValues gds detailedExtractor = Inr ts \<and>
        list_all2 (\<lambda>g t. tableInBytes t \<and>
                     (\<forall>(i, p)\<in>set (processMemoryDumps g). hasVmstats t (processNameOf p)))
          gds ts"
proof (induction gds)
  case Nil
  then show ?case by simp
next
  case (Cons g gds)
  have "tableInBytes []" by (simp add: tableInBytes_def)
  then obtain t where t: "sumProcessDumps detailedExtractor (processMemoryDumps g) [] = Inr t"
    "tableInBytes t" "\<forall>(i, p)\<in>set (processMemoryDumps g). hasVmstats t (processNameOf p)"
    using sumProcessDumps_detailed[of "[]" "processMemoryDumps g"] by blast
  obtain ts where ts: "calculatePerProcessNameMemoryDumpValues gds detailedExtractor = Inr ts"
    "list_all2 (\<lambda>g t. tableInBytes t \<and>
                     (\<forall>(i, p)\<in>set (processMemoryDumps g). hasVmstats t (processNameOf p)))
          gds ts"
    using Cons.IH by blast
  have "calculatePerProcessNameMemoryDumpValues (g # gds) detailedExtractor = Inr (t # ts)"
    using t(1) ts(1) by simp
  then show ?case using t(2,3) ts(2) by simp
qed

lemma reduceScalars_same_unit:
  "\<forall>s. Some s \<in> set xs \<longrightarrow> scalarUnit s = u \<Longrightarrow> \<exists>r. reduceScalars vn u xs acc = Inr r"
proof (induction xs arbitrary: acc)
  case Nil
  then show ?case by simp
next
  case (Cons x xs)
  then show ?case by (cases x) simp_all
qed

lemma find_in_set: "find P xs = Some x \<Longrightarrow> x \<in> set xs"
  by (induction xs) (auto split: if_splits)

lemma totalScalar_same_unit:
  assumes "Some s0 \<in> set xs" and "\<forall>s. Some s \<in> set xs \<longrightarrow> scalarUnit s = u"
  shows "\<exists>r. totalScalar vn xs = Inr \<lparr>scalarUnit = u, scalarValue = r\<rparr>"
proof -
  obtain f where f: "find (\<lambda>scalar. scalar \<noteq> None) xs = Some (Some f)"
    using find_defined[OF assms(1)] by blast
  then have "Some f \<in> set xs" by (rule find_in_set)
  then have u: "scalarUnit f = u" using assms(2) by blast
  obtain r where "reduceScalars vn u xs 0 = Inr r"
    using reduceScalars_same_unit[OF assms(2)] by blast
  then show ?thesis using totalScalar_first[OF f, of vn] u by simp
qed

lemma totalScalars_same_unit:
  "\<forall>(vn, xs)\<in>set inverted. (\<exists>s. Some s \<in> set xs) \<and>
      (\<forall>s. Some s \<in> set xs \<longrightarrow> scalarUnit s = u) \<Longrightarrow>
   \<exists>totals. totalScalars inverted = Inr totals \<and> map fst totals = map fst inverted \<and>
      (\<forall>(n, s)\<in>set totals. scalarUnit s = u)"
proof (induction inverted)
  case Nil
  then show ?case by simp
next
  case (Cons c inverted)
  obtain vn xs where c: "c = (vn, xs)" by (cases c)
  have "\<exists>s. Some s \<in> set xs" and every: "\<forall>s. Some s \<in> set xs \<longrightarrow> scalarUnit s = u"
    using Cons.prems c by auto
  then obtain s0 where s0: "Some s0 \<in> set xs" by blast
  obtain r where r: "totalScalar vn xs = Inr \<lparr>scalarUnit = u, scalarValue = r\<rparr>"
    using totalScalar_same_unit[OF s0 every] by blast
  obtain totals where t: "totalScalars inverted = Inr totals"
    "map fst totals = map fst inverted" "\<forall>(n, s)\<in>set totals. scalarUnit s = u"
    using Cons.IH Cons.prems by auto
  have "totalScalars (c # inverted) =
        Inr ((vn, \<lparr>scalarUnit = u, scalarValue = r\<rparr>) # totals)"
    using c r t(1) by simp
  then show ?case using c t(2,3) by simp
qed

lemma set_update_subset: "set (AList.update k v t) \<subseteq> insert (k, v) (set t)"
  by (induction t) auto

lemma entriesInBytes_update:
  assumes "entriesInBytes t" and "\<forall>(m, s)\<in>set d. scalarUnit s = sizeInBytes_smallerIsBetter"
  shows "entriesInBytes (AList.update k d t)"
  unfolding entriesInBytes_def
proof (intro ballI, clarify)
  fix a b n s
  assume ab: "(a, b) \<in> set (AList.update k d t)" and ns: "(n, s) \<in> set b"
  have "(a, b) = (k, d) \<or> (a, b) \<in> set t" using ab set_update_subset[of k d t] by auto
  then show "scalarUnit s = sizeInBytes_smallerIsBetter"
  proof
    assume "(a, b) = (k, d)"
    then show ?thesis using assms(2) ns by auto
  next
    assume "(a, b) \<in> set t"
    then show ?thesis using assms(1) ns unfolding entriesInBytes_def by blast
  qed
qed

lemma addProcessScalar_entries:
  assumes "addProcessScalar pn d n x = Inr d'"
    and "\<forall>(m, s)\<in>set d. scalarUnit s = u"
    and "\<forall>p. x = Some p \<longrightarrow> scalarUnit p = u"
  shows "\<forall>(m, s)\<in>set d'. scalarUnit s = u"
proof (cases x)
  case None
  then show ?thesis using assms by (simp add: addProcessScalar_def)
next
  case (Some p)
  then have p: "scalarUnit p = u" using assms(3) by simp
  show ?thesis
  proof (cases "map_of d n")
    case None
    then have "d' = AList.update n \<lparr>scalarUnit = scalarUnit p, scalarValue = scalarValue p\<rparr> d"
      using assms(1) Some by (simp add: addProcessScalar_def)
    then have "set d' \<subseteq> insert (n, \<lparr>scalarUnit = scalarUnit p, scalarValue = scalarValue p\<rparr>)
                 (set d)"
      using set_update_subset by metis
    then show ?thesis using assms(2) p by auto
  next
    case (Some s0)
    then have "(n, s0) \<in> set d" by (rule map_of_SomeD)
    then have s0: "scalarUnit s0 = u" using assms(2) by auto
    then have "d' = AList.update n (s0\<lparr>scalarValue := scalarValue s0 + scalarValue p\<rparr>) d"
      using assms(1) \<open>x = Some p\<close> Some p by (simp add: addProcessScalar_def)
    then have "set d' \<subseteq> insert (n, s0\<lparr>scalarValue := scalarValue s0 + scalarValue p\<rparr>) (set d)"
      using set_update_subset by metis
    then show ?thesis using assms(2) s0 by auto
  qed
qed

lemma addProcessScalars_entries:
  "addProcessScalars pn d calls = Inr d' \<Longrightarrow> \<forall>(m, s)\<in>set d. scalarUnit s = u \<Longrightarrow>
   \<forall>(n, x)\<in>set calls. \<forall>p. x = Some p \<longrightarrow> scalarUnit p = u \<Longrightarrow>
   \<forall>(m, s)\<in>set d'. scalarUnit s = u"
proof (induction calls arbitrary: d)
  case Nil
  then show ?case by simp
next
  case (Cons c calls)
  obtain n x where c: "c = (n, x)" by (cases c)
  obtain d1 where d1: "addProcessScalar pn d n x = Inr d1"
    "addProcessScalars pn d1 calls = Inr d'"
    using Cons.prems(1) c by (auto split: sum.splits)
  have "\<forall>p. x = Some p \<longrightarrow> scalarUnit p = u" using Cons.prems(3) c by simp
  then have "\<forall>(m, s)\<in>set d1. scalarUnit s = u"
    using addProcessScalar_entries[OF d1(1) Cons.prems(2)] by blast
  moreover have "\<forall>(n, x)\<in>set calls. \<forall>p. x = Some p \<longrightarrow> scalarUnit p = u"
    using Cons.prems(3) by simp
  ultimately show ?case using Cons.IH[OF d1(2)] by blast
qed

lemma sumProcessDumps_entries:
  "sumProcessDumps detailedExtractor pds t = Inr t' \<Longrightarrow> entriesInBytes t \<Longrightarrow>
   entriesInBytes t'"
proof (induction pds arbitrary: t)
  case Nil
  then show ?case by simp
next
  case (Cons c pds)
  obtain i p where c: "c = (i, p)" by (cases c)
  let ?k = "processNameOf p"
  let ?d = "case map_of t ?k of None \<Rightarrow> [] | Some existing \<Rightarrow> existing"
  let ?u = sizeInBytes_smallerIsBetter
  obtain d1 where d1: "addProcessScalars ?k ?d (detailedExtractor p) = Inr d1"
    "sumProcessDumps detailedExtractor pds (AList.update ?k d1 t) = Inr t'"
    using Cons.prems(1) c by (auto simp: Let_def split: sum.splits)
  have d: "\<forall>(m, s)\<in>set ?d. scalarUnit s = ?u"
  proof (cases "map_of t ?k")
    case None
    then show ?thesis by simp
  next
    case (Some d0)
    then have "(?k, d0) \<in> set t" by (rule map_of_SomeD)
    then show ?thesis using Cons.prems(2) Some unfolding entriesInBytes_def by auto
  qed
  have calls: "\<forall>(n, x)\<in>set (detailedExtractor p). \<forall>q. x = Some q \<longrightarrow> scalarUnit q = ?u"
    using detailedExtractor_bytes[of _ _ p] by fastforce
  have e1: "\<forall>(m, s)\<in>set d1. scalarUnit s = ?u"
    using addProcessScalars_entries[OF d1(1) d calls] .
  have "entriesInBytes (AList.update ?k d1 t)"
    using entriesInBytes_update[OF Cons.prems(2) e1] .
  then show ?case using Cons.IH[OF d1(2)] by simp
qed

lemma injectTotals_detailed:
  assumes "entriesInBytes t"
  shows "\<exists>t'. injectTotals t = Inr t' \<and> entriesInBytes t' \<and>
           (\<forall>k. hasVmstats t k \<longrightarrow> hasVmstats t' k)"
proof -
  let ?u = sizeInBytes_smallerIsBetter
  let ?array = "dictionaryValues t"
  let ?inv = "invertArrayOfDicts ?array"
  have inv: "\<forall>(vn, xs)\<in>set ?inv. (\<exists>s. Some s \<in> set xs) \<and>
      (\<forall>s. Some s \<in> set xs \<longrightarrow> scalarUnit s = ?u)"
  proof (intro ballI, clarify)
    fix vn xs assume e: "(vn, xs) \<in> set ?inv"
    have xs: "xs = map (\<lambda>d. map_of d vn) ?array"
      using invertArrayOfDicts_entry[OF e] by simp
    have "scalarUnit s = ?u" if "Some s \<in> set xs" for s
    proof -
      have "Some s \<in> (\<lambda>d. map_of d vn) ` set ?array" using that xs by simp
      then obtain d where "d \<in> set ?array" "Some s = map_of d vn" by blast
      then have d: "d \<in> set ?array" "map_of d vn = Some s" by simp_all
      then obtain k where "(k, d) \<in> set t" by (auto simp: dictionaryValues_def)
      moreover have "(vn, s) \<in> set d" using d(2) by (rule map_of_SomeD)
      ultimately show ?thesis using assms unfolding entriesInBytes_def by blast
    qed
    then show "(\<exists>s. Some s \<in> set xs) \<and> (\<forall>s. Some s \<in> set xs \<longrightarrow> scalarUnit s = ?u)"
      using invertArrayOfDicts_defined[OF e] by blast
  qed
  obtain totals where totals: "totalScalars ?inv = Inr totals"
    "map fst totals = map fst ?inv" "\<forall>(n, s)\<in>set totals. scalarUnit s = ?u"
    using totalScalars_same_unit[OF inv] by blast
  let ?t' = "AList.update ALL_PROCESS_NAMES totals t"
  have r: "injectTotals t = Inr ?t'" using totals(1) by (simp add: injectTotals_def Let_def)
  have e': "entriesInBytes ?t'"
    using entriesInBytes_update[OF assms totals(3)] .
  have keep: "hasVmstats ?t' k" if h: "hasVmstats t k" for k
  proof (cases "k = ALL_PROCESS_NAMES")
    case False
    then show ?thesis using h by (simp add: hasVmstats_def unitIn_def update_conv')
  next
    case True
    show ?thesis unfolding hasVmstats_def
    proof
      fix n assume n: "n \<in> set vmstatsNames"
      then have "unitIn t k n = Some ?u" using h by (simp add: hasVmstats_def)
      then obtain d s where d: "map_of t k = Some d" "map_of d n = Some s"
        by (auto simp: unitIn_def split: option.splits)
      have "(k, d) \<in> set t" using d(1) by (rule map_of_SomeD)
      then have da: "d \<in> set ?array" by (force simp: dictionaryValues_def)
      have "(n, map (\<lambda>d. map_of d n) ?array) \<in> set ?inv"
        using invertArrayOfDicts_has[OF da d(2)] .
      then have "n \<in> set (map fst ?inv)" by force
      then have "n \<in> fst ` set totals" using totals(2) by (metis list.set_map)
      then have "n \<in> dom (map_of totals)" by (simp add: dom_map_of_conv_image_fst)
      then obtain s' where s': "map_of totals n = Some s'" by blast
      then have "(n, s') \<in> set totals" by (rule map_of_SomeD)
      then have "scalarUnit s' = ?u" using totals(3) by auto
      then show "unitIn ?t' k n = Some ?u"
        using True s' by (simp add: unitIn_def update_conv')
    qed
  qed
  show ?thesis using r e' keep by blast
qed

lemma calculate_detailed_entries:
  "calculatePerProcessNameMemoryDumpValues gds detailedExtractor = Inr ts \<Longrightarrow>
   \<forall>t\<in>set ts. entriesInBytes t"
proof (induction gds arbitrary: ts)
  case Nil
  then show ?case by simp
next
  case (Cons g gds)
  obtain t rest where t: "sumProcessDumps detailedExtractor (processMemoryDumps g) [] = Inr t"
    "calculatePerProcessNameMemoryDumpValues gds detailedExtractor = Inr rest" "ts = t # rest"
    using Cons.prems by (auto split: sum.splits)
  have "entriesInBytes []" by (simp add: entriesInBytes_def)
  then have "entriesInBytes t" using sumProcessDumps_entries[OF t(1)] by simp
  then show ?case using Cons.IH[OF t(2)] t(3) by simp
qed

lemma injectTotalsAll_detailed:
  "\<forall>t\<in>set ts. entriesInBytes t \<Longrightarrow>
   list_all2 (\<lambda>g t. \<forall>(i, p)\<in>set (processMemoryDumps g). hasVmstats t (processNameOf p)) gds ts \<Longrightarrow>
   \<exists>ts'. injectTotalsIntoPerProcessNameMemoryDumpValues ts = Inr ts' \<and>
     list_all2 (\<lambda>g t. \<forall>(i, p)\<in>set (processMemoryDumps g). hasVmstats t (processNameOf p)) gds ts'"
proof (induction ts arbitrary: gds)
  case Nil
  then show ?case by simp
next
  case (Cons t ts)
  obtain g gds' where g: "gds = g # gds'"
    "\<forall>(i, p)\<in>set (processMemoryDumps g). hasVmstats t (processNameOf p)"
    "list_all2 (\<lambda>g t. \<forall>(i, p)\<in>set (processMemoryDumps g). hasVmstats t (processNameOf p))
       gds' ts"
    using Cons.prems(2) by (auto simp: list_all2_Cons2)
  obtain t' where t': "injectTotals t = Inr t'" "\<forall>k. hasVmstats t k \<longrightarrow> hasVmstats t' k"
    using injectTotals_detailed[of t] Cons.prems(1) by auto
  obtain ts' where ts': "injectTotalsIntoPerProcessNameMemoryDumpValues ts = Inr ts'"
    "list_all2 (\<lambda>g t. \<forall>(i, p)\<in>set (processMemoryDumps g). hasVmstats t (processNameOf p))
       gds' ts'"
    using Cons.IH[OF _ g(3)] Cons.prems(1) by auto
  have "injectTotalsIntoPerProcessNameMemoryDumpValues (t # ts) = Inr (t' # ts')"
    using t'(1) ts'(1) by simp
  moreover have "\<forall>(i, p)\<in>set (processMemoryDumps g). hasVmstats t' (processNameOf p)"
    using g(2) t'(2) by auto
  ultimately show ?case using g(1) ts'(2) by simp
qed

lemma detailedMemoryDumpValues_all:
  "\<exists>ts. detailedMemoryDumpValues gds = Inr ts \<and>
     list_all2 (\<lambda>g t. \<forall>(i, p)\<in>set (processMemoryDumps g). hasVmstats t (processNameOf p))
       (filter (\<lambda>g. levelOfDetail g = Some DETAILED) gds) ts"
proof -
  let ?f = "filter (\<lambda>g. levelOfDetail g = Some DETAILED) gds"
  obtain ts0 where ts0: "calculatePerProcessNameMemoryDumpValues ?f detailedExtractor = Inr ts0"
    "list_all2 (\<lambda>g t. tableInBytes t \<and>
                     (\<forall>(i, p)\<in>set (processMemoryDumps g). hasVmstats t (processNameOf p)))
          ?f ts0"
    using calculate_detailed[of ?f] by blast
  have l: "list_all2 (\<lambda>g t. \<forall>(i, p)\<in>set (processMemoryDumps g). hasVmstats t (processNameOf p))
          ?f ts0"
    using ts0(2) by (rule list_all2_mono) simp
  have e: "\<forall>t\<in>set ts0. entriesInBytes t" using calculate_detailed_entries[OF ts0(1)] .
  obtain ts where "injectTotalsIntoPerProcessNameMemoryDumpValues ts0 = Inr ts"
    "list_all2 (\<lambda>g t. \<forall>(i, p)\<in>set (processMemoryDumps g). hasVmstats t (processNameOf p)) ?f ts"
    using injectTotalsAll_detailed[OF e l] by blast
  then show ?thesis
    using ts0(1) by (auto simp: detailedMemoryDumpValues_def perProcessNameMemoryDumpValues_def)
qed

text \<open>
  Claim C10: the extractor of the detailed dumps yields, for every process dump, the five
  values of the VM statistics in the order of \<open>MMAPS_METRICS\<close>, each a scalar in bytes
  with the value of its metric; the value is 0 when the classification node at the path
  of the metric does not exist, and when the node has no such byte statistic. For every
  list of global dumps the sums and totals of the detailed dumps are computed without an
  error, one table per DETAILED dump, and in the table of a dump the group of every
  process dump of that dump has all five values.
\<close>

theorem detailed_vmstats_are_emitted:
  "vmstatsNames = [''vmstats:overall:pss'', ''vmstats:overall:private_dirty'',
     ''vmstats:java_heap:private_dirty'', ''vmstats:ashmem:pss'', ''vmstats:native_heap:pss''] \<and>
   map fst (detailedExtractor processDump) = vmstatsNames \<and>
   ((metricName, metricSpec) \<in> set MMAPS_METRICS \<longrightarrow>
      (''vmstats:'' @ metricName,
       Some \<lparr>scalarUnit = sizeInBytes_smallerIsBetter,
             scalarValue = vmstatsValue processDump metricSpec\<rparr>)
        \<in> set (detailedExtractor processDump)) \<and>
   (getDescendantVmRegionClassificationNode (vmRegions processDump) (path metricSpec) = None \<longrightarrow>
      vmstatsValue processDump metricSpec = 0) \<and>
   (getDescendantVmRegionClassificationNode (vmRegions processDump) (path metricSpec)
      = Some node \<and> map_of (byteStats node) (byteStat metricSpec) = None \<longrightarrow>
      vmstatsValue processDump metricSpec = 0) \<and>
   (\<exists>tables. detailedMemoryDumpValues globalDumps = Inr tables \<and>
      list_all2
        (\<lambda>globalDump table.
           \<forall>(processId, processDump)\<in>set (processMemoryDumps globalDump).
             hasVmstats table (processNameOf processDump))
        (filter (\<lambda>g. levelOfDetail g = Some DETAILED) globalDumps) tables)"
proof -
  have c: "(''vmstats:'' @ metricName,
       Some \<lparr>scalarUnit = sizeInBytes_smallerIsBetter,
             scalarValue = vmstatsValue processDump metricSpec\<rparr>)
        \<in> set (detailedExtractor processDump)"
    if "(metricName, metricSpec) \<in> set MMAPS_METRICS"
    using that unfolding detailedExtractor_def by force
  have d: "vmstatsValue processDump metricSpec = 0"
    if "getDescendantVmRegionClassificationNode (vmRegions processDump) (path metricSpec) = None"
    using that by (simp add: vmstatsValue_def)
  have e: "vmstatsValue processDump metricSpec = 0"
    if "getDescendantVmRegionClassificationNode (vmRegions processDump) (path metricSpec)
      = Some node \<and> map_of (byteStats node) (byteStat metricSpec) = None"
    using that by (simp add: vmstatsValue_def)
  show ?thesis
    using vmstatsNames_eq detailedExtractor_names[of processDump] c d e
      detailedMemoryDumpValues_all[of globalDumps]
    by blast
qed

lemma exampleVmProcess_calls:
  "detailedExtractor exampleVmProcess =
     [(''vmstats:overall:pss'',
         Some \<lparr>scalarUnit = sizeInBytes_smallerIsBetter, scalarValue = 5000\<rparr>),
      (''vmstats:overall:private_dirty'',
         Some \<lparr>scalarUnit = sizeInBytes_smallerIsBetter, scalarValue = 0\<rparr>),
      (''vmstats:java_heap:private_dirty'',
         Some \<lparr>scalarUnit = sizeInBytes_smallerIsBetter, scalarValue = 0\<rparr>),
      (''vmstats:ashmem:pss'',
         Some \<lparr>scalarUnit = sizeInBytes_smallerIsBetter, scalarValue = 0\<rparr>),
      (''vmstats:native_heap:pss'',
         Some \<lparr>scalarUnit = sizeInBytes_smallerIsBetter, scalarValue = 1000\<rparr>)]"
  by (simp add: detailedExtractor_def MMAPS_METRICS_def vmstatsValue_def exampleVmProcess_def
      exampleVmRegions_def)

lemma exampleVmProcess_values:
  "detailedMemoryDumpValues
     [exampleGlobalDump 1 DETAILED [(7, exampleVmProcess)],
      exampleGlobalDump 2 LIGHT [(7, exampleVmProcess)]] =
   Inr [[(''renderer'',
          [(''vmstats:overall:pss'',
              \<lparr>scalarUnit = sizeInBytes_smallerIsBetter, scalarValue = 5000\<rparr>),
           (''vmstats:overall:private_dirty'',
              \<lparr>scalarUnit = sizeInBytes_smallerIsBetter, scalarValue = 0\<rparr>),
           (''vmstats:java_heap:private_dirty'',
              \<lparr>scalarUnit = sizeInBytes_smallerIsBetter, scalarValue = 0\<rparr>),
           (''vmstats:ashmem:pss'',
              \<lparr>scalarUnit = sizeInBytes_smallerIsBetter, scalarValue = 0\<rparr>),
           (''vmstats:native_heap:pss'',
              \<lparr>scalarUnit = sizeInBytes_smallerIsBetter, scalarValue = 1000\<rparr>)]),
         (''all'',
          [(''vmstats:overall:pss'',
              \<lparr>scalarUnit = sizeInBytes_smallerIsBetter, scalarValue = 5000\<rparr>),
           (''vmstats:overall:private_dirty'',
              \<lparr>scalarUnit = sizeInBytes_smallerIsBetter, scalarValue = 0\<rparr>),
           (''vmstats:java_heap:private_dirty'',
              \<lparr>scalarUnit = sizeInBytes_smallerIsBetter, scalarValue = 0\<rparr>),
           (''vmstats:ashmem:pss'',
              \<lparr>scalarUnit = sizeInBytes_smallerIsBetter, scalarValue = 0\<rparr>),
           (''vmstats:native_heap:pss'',
              \<lparr>scalarUnit = sizeInBytes_smallerIsBetter, scalarValue = 1000\<rparr>)])]]"
proof -
  have n: "processNameOf exampleVmProcess = ''renderer''"
    by (simp add: processNameOf_def exampleVmProcess_def toLowerCase_def toLowerCaseChar_def)
  show ?thesis
    by (simp add: detailedMemoryDumpValues_def perProcessNameMemoryDumpValues_def
        exampleGlobalDump_def exampleVmProcess_calls n addProcessScalar_def injectTotals_def
        invertArrayOfDicts_def dictionaryValues_def totalScalar_def ALL_PROCESS_NAMES_def)
qed

text \<open>A renderer whose classification tree has no Java heap and an Ashmem node without
  the proportional resident size, in a detailed and in a light global dump.\<close>

theorem detailed_vmstats_are_emitted_witness:
  "(''java_heap:private_dirty'', exampleJavaHeap) \<in> set MMAPS_METRICS \<and>
   getDescendantVmRegionClassificationNode (vmRegions exampleVmProcess) (path exampleJavaHeap)
     = None \<and>
   vmstatsValue exampleVmProcess exampleJavaHeap = 0 \<and>
   (''vmstats:java_heap:private_dirty'',
    Some \<lparr>scalarUnit = sizeInBytes_smallerIsBetter, scalarValue = 0\<rparr>)
     \<in> set (detailedExtractor exampleVmProcess) \<and>
   getDescendantVmRegionClassificationNode (vmRegions exampleVmProcess) (path exampleAshmem)
     = Some (VMRegionClassificationNode ''Ashmem'' [] [(''privateDirtyResident'', 64)]) \<and>
   map_of [(''privateDirtyResident'', 64::real)] (byteStat exampleAshmem) = None \<and>
   vmstatsValue exampleVmProcess exampleAshmem = 0 \<and>
   map fst (detailedExtractor exampleVmProcess) =
     [''vmstats:overall:pss'', ''vmstats:overall:private_dirty'',
      ''vmstats:java_heap:private_dirty'', ''vmstats:ashmem:pss'', ''vmstats:native_heap:pss''] \<and>
   (\<exists>tables. detailedMemoryDumpValues
        [exampleGlobalDump 1 DETAILED [(7, exampleVmProcess)],
         exampleGlobalDump 2 LIGHT [(7, exampleVmProcess)]] = Inr tables \<and>
      length tables = 1)"
proof -
  let ?ashmem = "VMRegionClassificationNode ''Ashmem'' [] [(''privateDirtyResident'', 64)]"
  let ?dumps = "[exampleGlobalDump 1 DETAILED [(7, exampleVmProcess)],
                 exampleGlobalDump 2 LIGHT [(7, exampleVmProcess)]]"
  have m: "(''java_heap:private_dirty'', exampleJavaHeap) \<in> set MMAPS_METRICS"
    by (simp add: MMAPS_METRICS_def exampleJavaHeap_def)
  have j: "getDescendantVmRegionClassificationNode (vmRegions exampleVmProcess)
             (path exampleJavaHeap) = None"
    by (simp add: exampleVmProcess_def exampleVmRegions_def exampleJavaHeap_def)
  have a: "getDescendantVmRegionClassificationNode (vmRegions exampleVmProcess)
             (path exampleAshmem) = Some ?ashmem \<and>
           map_of (byteStats ?ashmem) (byteStat exampleAshmem) = None"
    by (simp add: exampleVmProcess_def exampleVmRegions_def exampleAshmem_def)
  note t1 = detailed_vmstats_are_emitted[where processDump = exampleVmProcess
      and metricName = "''java_heap:private_dirty''" and metricSpec = exampleJavaHeap
      and node = ?ashmem and globalDumps = ?dumps]
  note t2 = detailed_vmstats_are_emitted[where processDump = exampleVmProcess
      and metricName = "''ashmem:pss''" and metricSpec = exampleAshmem
      and node = ?ashmem and globalDumps = ?dumps]
  have z1: "vmstatsValue exampleVmProcess exampleJavaHeap = 0" using t1 j by blast
  have z2: "vmstatsValue exampleVmProcess exampleAshmem = 0" using t2 a by blast
  have e: "(''vmstats:java_heap:private_dirty'',
    Some \<lparr>scalarUnit = sizeInBytes_smallerIsBetter,
          scalarValue = vmstatsValue exampleVmProcess exampleJavaHeap\<rparr>)
     \<in> set (detailedExtractor exampleVmProcess)"
    using t1 m by simp
  have names: "map fst (detailedExtractor exampleVmProcess) =
     [''vmstats:overall:pss'', ''vmstats:overall:private_dirty'',
      ''vmstats:java_heap:private_dirty'', ''vmstats:ashmem:pss'', ''vmstats:native_heap:pss'']"
    using t1 by simp
  have f: "filter (\<lambda>g. levelOfDetail g = Some DETAILED) ?dumps
           = [exampleGlobalDump 1 DETAILED [(7, exampleVmProcess)]]"
    by (simp add: exampleGlobalDump_def)
  obtain tables where tb: "detailedMemoryDumpValues ?dumps = Inr tables"
    "list_all2
        (\<lambda>globalDump table.
           \<forall>(processId, processDump)\<in>set (processMemoryDumps globalDump).
             hasVmstats table (processNameOf processDump))
        (filter (\<lambda>g. levelOfDetail g = Some DETAILED) ?dumps) tables"
    using t1 by blast
  have "length tables = 1" using tb(2) f by (auto dest: list_all2_lengthD)
  then have p: "\<exists>tables. detailedMemoryDumpValues ?dumps = Inr tables \<and> length tables = 1"
    using tb(1) by blast
  have e0: "(''vmstats:java_heap:private_dirty'',
    Some \<lparr>scalarUnit = sizeInBytes_smallerIsBetter, scalarValue = 0\<rparr>)
     \<in> set (detailedExtractor exampleVmProcess)"
    using e z1 by simp
  have a2: "map_of [(''privateDirtyResident'', 64::real)] (byteStat exampleAshmem) = None"
    using a by simp
  show ?thesis using m j z1 e0 a a2 z2 names p by blast
qed

end
